theory Spec2Isabelle
  imports Complex_Main "HOL-Library.Sublist"
begin

section \<open>Data model (types/Task/taskType.ts)\<close>

text \<open>
  The task planner is a month-view calendar on which tasks are created, moved and resized
  with pointer gestures. This theory embeds the task collection of \<^verbatim>\<open>TaskPlanner\<close>, the
  pointer handlers of \<^verbatim>\<open>Calendar\<close> (Calender.tsx), the geometry of \<^verbatim>\<open>TaskStrip\<close> and the
  localStorage effects, and states the specification's properties over them.

  Every \<^verbatim>\<open>Date\<close> the calendar handles is a local midnight: the grid cells come from
  \<^verbatim>\<open>eachDayOfInterval\<close>, and a task's dates come from grid cells, directly or through
  \<^verbatim>\<open>addDays\<close>. Such a date is represented by its day number, the number of days since
  1970-01-01, so that \<^verbatim>\<open>a <= b\<close> on dates is \<open>\<le>\<close> on day numbers,
  \<^verbatim>\<open>addDays(d, n)\<close> is \<open>d + n\<close> and \<^verbatim>\<open>differenceInDays(a, b)\<close> is \<open>a - b\<close>.
\<close>

type_synonym Date = int

datatype TaskCategory = ToDo | InProgress | Review | Completed

datatype TaskPriority = P0 | P1 | P2

datatype TaskColor = Blue | Green | Purple | Orange | Red | Pink | Indigo | Teal

datatype TimeFilter = All | OneWeek | TwoWeeks | ThreeWeeks

record Task =
  task_id :: string
  name :: string
  category :: TaskCategory
  startDate :: Date
  endDate :: Date
  assignedUser :: string
  priority :: TaskPriority
  color :: TaskColor

text \<open>\<^verbatim>\<open>Partial<Task>\<close>: every field may be absent.\<close>

record TaskUpdates =
  u_id :: "string option"
  u_name :: "string option"
  u_category :: "TaskCategory option"
  u_startDate :: "Date option"
  u_endDate :: "Date option"
  u_assignedUser :: "string option"
  u_priority :: "TaskPriority option"
  u_color :: "TaskColor option"

definition noUpdates :: TaskUpdates where
  "noUpdates = \<lparr>u_id = None, u_name = None, u_category = None, u_startDate = None,
     u_endDate = None, u_assignedUser = None, u_priority = None, u_color = None\<rparr>"

text \<open>The date-fns functions on local midnights.\<close>

definition addDays :: "Date \<Rightarrow> int \<Rightarrow> Date" where
  "addDays d n = d + n"

definition differenceInDays :: "Date \<Rightarrow> Date \<Rightarrow> int" where
  "differenceInDays dateLeft dateRight = dateLeft - dateRight"

definition isSameDay :: "Date \<Rightarrow> Date \<Rightarrow> bool" where
  "isSameDay a b = (a = b)"

section \<open>The task collection (TaskPlanner)\<close>

text \<open>The object spread \<^verbatim>\<open>{ ...task, ...updates }\<close>: a field present in the updates wins.\<close>

definition spread :: "Task \<Rightarrow> TaskUpdates \<Rightarrow> Task" where
  "spread task updates =
     \<lparr>task_id = (case u_id updates of None \<Rightarrow> task_id task | Some v \<Rightarrow> v),
      name = (case u_name updates of None \<Rightarrow> name task | Some v \<Rightarrow> v),
      category = (case u_category updates of None \<Rightarrow> category task | Some v \<Rightarrow> v),
      startDate = (case u_startDate updates of None \<Rightarrow> startDate task | Some v \<Rightarrow> v),
      endDate = (case u_endDate updates of None \<Rightarrow> endDate task | Some v \<Rightarrow> v),
      assignedUser = (case u_assignedUser updates of None \<Rightarrow> assignedUser task | Some v \<Rightarrow> v),
      priority = (case u_priority updates of None \<Rightarrow> priority task | Some v \<Rightarrow> v),
      color = (case u_color updates of None \<Rightarrow> color task | Some v \<Rightarrow> v)\<rparr>"

definition updateTask :: "string \<Rightarrow> TaskUpdates \<Rightarrow> Task list \<Rightarrow> Task list" where
  "updateTask taskId updates prev =
     map (\<lambda>task. if task_id task = taskId then spread task updates else task) prev"

definition deleteTask :: "string \<Rightarrow> Task list \<Rightarrow> Task list" where
  "deleteTask taskId prev = filter (\<lambda>task. task_id task \<noteq> taskId) prev"

text \<open>
  \<^verbatim>\<open>createTask\<close> appends a task whose id is what \<^verbatim>\<open>generateId()\<close> returns.

  Modelled from the spec: \<^verbatim>\<open>generateId\<close> lives in lib/utils, which is not among the
  sources at hand; the specification calls a task's id "a stable unique id". The id is a
  parameter here, and the reachability relation below only feeds ids that were never
  issued before.
\<close>

definition createTask ::
  "string \<Rightarrow> string \<Rightarrow> TaskCategory \<Rightarrow> Date \<Rightarrow> Date \<Rightarrow> string \<Rightarrow> TaskPriority \<Rightarrow> TaskColor
     \<Rightarrow> Task list \<Rightarrow> Task list" where
  "createTask generatedId nm cat sd ed user prio col prev =
     prev @ [\<lparr>task_id = generatedId, name = nm, category = cat, startDate = sd, endDate = ed,
               assignedUser = user, priority = prio, color = col\<rparr>]"

record User =
  user_id :: string
  user_name :: string

definition mockUsers :: "User list" where
  "mockUsers =
     [\<lparr>user_id = ''1'', user_name = ''John Doe''\<rparr>,
      \<lparr>user_id = ''2'', user_name = ''Jane Smith''\<rparr>,
      \<lparr>user_id = ''3'', user_name = ''Mike Johnson''\<rparr>,
      \<lparr>user_id = ''4'', user_name = ''Sarah Wilson''\<rparr>,
      \<lparr>user_id = ''5'', user_name = ''David Brown''\<rparr>]"

section \<open>Application and gesture state\<close>

text \<open>
  The state of \<^verbatim>\<open>TaskPlanner\<close> (tasks, selectedTask, isModalOpen, dragSelection) and of
  \<^verbatim>\<open>Calendar\<close> (isDragging, draggedTask, dragOffset, hoveredDay, resizingTask) in one
  record; \<open>null\<close> is \<open>None\<close>. The dragged and the resized task are held as the copies
  taken at pointer-down, as in the source.
\<close>

datatype ResizeMode = ResizeLeft | ResizeRight

record DragSelection =
  sel_startDate :: "Date option"
  sel_endDate :: "Date option"
  isSelecting :: bool

record Resizing =
  r_task :: Task
  r_mode :: ResizeMode
  originalDate :: Date

record AppState =
  tasks :: "Task list"
  selectedTask :: "Task option"
  isModalOpen :: bool
  dragSelection :: DragSelection
  isDragging :: bool
  draggedTask :: "Task option"
  dragOffset :: int
  hoveredDay :: "Date option"
  resizingTask :: "Resizing option"

definition noSelection :: DragSelection where
  "noSelection = \<lparr>sel_startDate = None, sel_endDate = None, isSelecting = False\<rparr>"

definition initialState :: AppState where
  "initialState =
     \<lparr>tasks = [], selectedTask = None, isModalOpen = False, dragSelection = noSelection,
      isDragging = False, draggedTask = None, dragOffset = 0, hoveredDay = None,
      resizingTask = None\<rparr>"

section \<open>TaskPlanner callbacks\<close>

definition onTaskUpdate :: "string \<Rightarrow> TaskUpdates \<Rightarrow> AppState \<Rightarrow> AppState" where
  "onTaskUpdate taskId updates s = s\<lparr>tasks := updateTask taskId updates (tasks s)\<rparr>"

definition onTaskDelete :: "string \<Rightarrow> AppState \<Rightarrow> AppState" where
  "onTaskDelete taskId s = s\<lparr>tasks := deleteTask taskId (tasks s)\<rparr>"

definition handleDragSelection :: "Date \<Rightarrow> Date \<Rightarrow> AppState \<Rightarrow> AppState" where
  "handleDragSelection sd ed s =
     s\<lparr>dragSelection := \<lparr>sel_startDate = Some sd, sel_endDate = Some ed, isSelecting = False\<rparr>,
       selectedTask := Some \<lparr>task_id = '''', name = '''', category = ToDo, startDate = sd,
         endDate = ed, assignedUser = user_name (mockUsers ! 0), priority = P1,
         color = Blue\<rparr>,
       isModalOpen := True\<rparr>"

definition handleTaskEdit :: "Task \<Rightarrow> AppState \<Rightarrow> AppState" where
  "handleTaskEdit task s = s\<lparr>selectedTask := Some task, isModalOpen := True\<rparr>"

definition handleModalClose :: "AppState \<Rightarrow> AppState" where
  "handleModalClose s =
     s\<lparr>isModalOpen := False, selectedTask := None, dragSelection := noSelection\<rparr>"

text \<open>An empty id string is falsy: \<^verbatim>\<open>if (selectedTask.id)\<close> tells an edit from a creation.\<close>

definition handleModalSave ::
  "string \<Rightarrow> string \<Rightarrow> TaskCategory \<Rightarrow> string \<Rightarrow> TaskPriority \<Rightarrow> TaskColor \<Rightarrow> AppState
     \<Rightarrow> AppState" where
  "handleModalSave generatedId nm cat user prio col s =
     handleModalClose
       (case selectedTask s of
          None \<Rightarrow> s
        | Some sel \<Rightarrow>
            if task_id sel \<noteq> ''''
            then onTaskUpdate (task_id sel)
                   (noUpdates\<lparr>u_name := Some nm, u_category := Some cat,
                      u_assignedUser := Some user, u_priority := Some prio,
                      u_color := Some col\<rparr>) s
            else s\<lparr>tasks := createTask generatedId nm cat (startDate sel) (endDate sel)
                              user prio col (tasks s)\<rparr>)"

section \<open>Calendar pointer handlers (Calender.tsx)\<close>

text \<open>An object reference is truthy when it is not \<^verbatim>\<open>null\<close>.\<close>

definition nonNull :: "'a option \<Rightarrow> bool" where
  "nonNull v = (v \<noteq> None)"

definition handleMouseDown :: "Date \<Rightarrow> AppState \<Rightarrow> AppState" where
  "handleMouseDown day s =
     (if nonNull (draggedTask s) \<or> nonNull (resizingTask s) then s
      else s\<lparr>isDragging := True,
             dragSelection :=
               \<lparr>sel_startDate = Some day, sel_endDate = Some day, isSelecting = True\<rparr>\<rparr>)"

text \<open>
  \<^verbatim>\<open>handleMouseEnter\<close>: records the hovered day; while selecting, rewrites the selection
  from \<^verbatim>\<open>dragSelection.startDate\<close> and the entered day; while resizing, moves one
  boundary of the task when the guard against the copy in \<^verbatim>\<open>resizingTask\<close> holds.
  The two conditional blocks of the handler are \<open>selectTo\<close> and \<open>resizeTo\<close>, in
  the order in which the handler runs them.
\<close>

definition selectTo :: "Date \<Rightarrow> AppState \<Rightarrow> AppState" where
  "selectTo day s =
     (case sel_startDate (dragSelection s) of
        None \<Rightarrow> s
      | Some start \<Rightarrow>
          if isDragging s \<and> draggedTask s = None \<and> resizingTask s = None
          then (let endDay = day in
                s\<lparr>dragSelection :=
                    \<lparr>sel_startDate = Some (if start \<le> endDay then start else endDay),
                     sel_endDate = Some (if start \<le> endDay then endDay else start),
                     isSelecting = True\<rparr>\<rparr>)
          else s)"

definition resizeTo :: "Date \<Rightarrow> AppState \<Rightarrow> AppState" where
  "resizeTo day s =
     (case resizingTask s of
        None \<Rightarrow> s
      | Some r \<Rightarrow>
          (case r_mode r of
             ResizeRight \<Rightarrow>
               if day \<ge> startDate (r_task r)
               then onTaskUpdate (task_id (r_task r)) (noUpdates\<lparr>u_endDate := Some day\<rparr>) s
               else s
           | ResizeLeft \<Rightarrow>
               if day \<le> endDate (r_task r)
               then onTaskUpdate (task_id (r_task r)) (noUpdates\<lparr>u_startDate := Some day\<rparr>) s
               else s))"

definition handleMouseEnter :: "Date \<Rightarrow> AppState \<Rightarrow> AppState" where
  "handleMouseEnter day s = resizeTo day (selectTo day (s\<lparr>hoveredDay := Some day\<rparr>))"

definition handleTaskDrop :: "Date \<Rightarrow> AppState \<Rightarrow> AppState" where
  "handleTaskDrop targetDay s =
     (case draggedTask s of
        None \<Rightarrow> s
      | Some dragged \<Rightarrow>
          (let taskDuration = differenceInDays (endDate dragged) (startDate dragged);
               newStartDate = addDays targetDay (- dragOffset s);
               newEndDate = addDays newStartDate taskDuration
           in onTaskUpdate (task_id dragged)
                (noUpdates\<lparr>u_startDate := Some newStartDate, u_endDate := Some newEndDate\<rparr>) s))"

text \<open>
  \<^verbatim>\<open>handleMouseUp\<close>: its first block commits a selection (\<open>commitSelection\<close>), its
  second drops a dragged task on the hovered day (\<open>dropOnHovered\<close>); then the gesture
  state is cleared. \<^verbatim>\<open>handleTaskDrop\<close> has no other caller.
\<close>

definition commitSelection :: "AppState \<Rightarrow> AppState" where
  "commitSelection s =
     (case (sel_startDate (dragSelection s), sel_endDate (dragSelection s)) of
        (Some sd, Some ed) \<Rightarrow>
          if isDragging s \<and> draggedTask s = None \<and> resizingTask s = None
          then handleDragSelection sd ed s else s
      | _ \<Rightarrow> s)"

definition dropOnHovered :: "AppState \<Rightarrow> AppState" where
  "dropOnHovered s =
     (case (draggedTask s, hoveredDay s) of
        (Some dragged, Some day) \<Rightarrow> handleTaskDrop day s
      | _ \<Rightarrow> s)"

definition handleMouseUp :: "AppState \<Rightarrow> AppState" where
  "handleMouseUp s =
     (dropOnHovered (commitSelection s))
       \<lparr>isDragging := False, draggedTask := None, hoveredDay := None, resizingTask := None\<rparr>"

definition handleMouseLeave :: "AppState \<Rightarrow> AppState" where
  "handleMouseLeave s =
     s\<lparr>isDragging := False, draggedTask := None, hoveredDay := None, resizingTask := None\<rparr>"

definition handleTaskDragStart :: "Task \<Rightarrow> Date \<Rightarrow> AppState \<Rightarrow> AppState" where
  "handleTaskDragStart task dayClicked s =
     s\<lparr>draggedTask := Some task, dragOffset := differenceInDays dayClicked (startDate task)\<rparr>"

definition handleTaskResizeStart :: "Task \<Rightarrow> ResizeMode \<Rightarrow> AppState \<Rightarrow> AppState" where
  "handleTaskResizeStart task mode s =
     s\<lparr>resizingTask :=
         Some \<lparr>r_task = task, r_mode = mode,
               originalDate = (if mode = ResizeRight then endDate task else startDate task)\<rparr>\<rparr>"

text \<open>A run of pointer-enter events, in delivery order.\<close>

fun hovers :: "Date list \<Rightarrow> AppState \<Rightarrow> AppState" where
  "hovers [] s = s"
| "hovers (day # ds) s = hovers ds (handleMouseEnter day s)"

section \<open>DateGrid: the days of the month view\<close>

text \<open>
  The date-fns calendar functions, on day numbers. date-fns reads and writes the local
  calendar fields of a \<^verbatim>\<open>Date\<close>, which ECMAScript defines (ECMA-262, Time Values and
  Time Range): \<^verbatim>\<open>DayFromYear\<close>, \<^verbatim>\<open>YearFromTime\<close>, \<^verbatim>\<open>MonthFromTime\<close>,
  \<^verbatim>\<open>DateFromTime\<close>, \<^verbatim>\<open>WeekDay\<close> and \<^verbatim>\<open>MakeDay\<close>. They are embedded here on the
  day number \<^verbatim>\<open>Day(t)\<close> of a local time value. Months count from 0 (January) to 11.
\<close>

definition DayFromYear :: "int \<Rightarrow> Date" where
  "DayFromYear y =
     365 * (y - 1970) + (y - 1969) div 4 - (y - 1901) div 100 + (y - 1601) div 400"

text \<open>365 or 366 days, by the Gregorian leap year rule.\<close>

definition DaysInYear :: "int \<Rightarrow> int" where
  "DaysInYear y =
     (if y mod 4 \<noteq> 0 then 365
      else if y mod 100 \<noteq> 0 then 366
      else if y mod 400 \<noteq> 0 then 365
      else 366)"

text \<open>
  Consecutive years start \<^verbatim>\<open>DaysInYear\<close> days apart; the search for the year of a day
  terminates by it.
\<close>

lemma div_step:
  fixes x k :: int
  assumes "0 < k"
  shows "(x + 1) div k = x div k + (if (x + 1) mod k = 0 then 1 else 0)"
proof -
  define q r where "q = x div k" and "r = x mod k"
  have x: "x = r + k * q" and r: "0 \<le> r" "r < k"
    using assms by (simp_all add: q_def r_def)
  show ?thesis
  proof (cases "r + 1 = k")
    case True
    then have "x + 1 = 0 + k * (q + 1)"
      using x by (simp add: algebra_simps)
    then have "(x + 1) div k = q + 1" and "(x + 1) mod k = 0"
      using assms by simp_all
    then show ?thesis by (simp add: q_def)
  next
    case False
    then have s: "0 \<le> r + 1" "r + 1 < k"
      using r by simp_all
    have "x + 1 = (r + 1) + k * q"
      using x by simp
    then have "(x + 1) div k = q + (r + 1) div k" and "(x + 1) mod k = (r + 1) mod k"
      using assms by (simp_all only: div_mult_self2 mod_mult_self2)
    then have "(x + 1) div k = q" and "(x + 1) mod k = r + 1"
      using s by simp_all
    then show ?thesis using r by (simp add: q_def)
  qed
qed

lemma mod_shift:
  fixes y :: int
  shows "(y - 1968) mod 4 = y mod 4" "(y - 1900) mod 100 = y mod 100"
    "(y - 1600) mod 400 = y mod 400"
proof -
  have "(y - 4 * 492) mod 4 = y mod 4" "(y - 100 * 19) mod 100 = y mod 100"
    "(y - 400 * 4) mod 400 = y mod 400"
    by (simp_all only: mod_mult_self1 mod_mult_self2 minus_mult_right mod_diff_eq
        diff_conv_add_uminus)
  then show "(y - 1968) mod 4 = y mod 4" "(y - 1900) mod 100 = y mod 100"
    "(y - 1600) mod 400 = y mod 400"
    by simp_all
qed

lemma mod_chain:
  fixes y :: int
  shows "y mod 400 = 0 \<Longrightarrow> y mod 100 = 0" and "y mod 100 = 0 \<Longrightarrow> y mod 4 = 0"
  by (auto simp: mod_eq_0_iff_dvd elim: dvd_trans [rotated])

lemma DayFromYear_Suc: "DayFromYear (y + 1) = DayFromYear y + DaysInYear y"
proof -
  have a: "(y + 1 - 1969) div 4 = (y - 1969) div 4 + (if y mod 4 = 0 then 1 else 0)"
    using div_step [of 4 "y - 1969"] mod_shift(1) [of y] by (simp add: algebra_simps)
  have b: "(y + 1 - 1901) div 100 = (y - 1901) div 100 + (if y mod 100 = 0 then 1 else 0)"
    using div_step [of 100 "y - 1901"] mod_shift(2) [of y] by (simp add: algebra_simps)
  have c: "(y + 1 - 1601) div 400 = (y - 1601) div 400 + (if y mod 400 = 0 then 1 else 0)"
    using div_step [of 400 "y - 1601"] mod_shift(3) [of y] by (simp add: algebra_simps)
  show ?thesis
    unfolding DayFromYear_def DaysInYear_def a b c
    using mod_chain [of y] by auto
qed


lemma DaysInYear_cases: "DaysInYear y = 365 \<or> DaysInYear y = 366"
  by (simp add: DaysInYear_def)

lemma DayFromYear_pred: "DayFromYear (y - 1) = DayFromYear y - DaysInYear (y - 1)"
  using DayFromYear_Suc [of "y - 1"] by simp

lemma DayFromYear_less_Suc: "DayFromYear y < DayFromYear (y + 1)"
  using DayFromYear_Suc [of y] DaysInYear_cases [of y] by auto

text \<open>
  \<^verbatim>\<open>YearFromTime(t)\<close> is the largest year \<open>y\<close> with \<^verbatim>\<open>DayFromYear(y)\<close> not after
  \<open>t\<close>. It is searched upward from 1970 for a day at or after the epoch, and downward
  from 1969 before it.
\<close>

function yearUp :: "int \<Rightarrow> Date \<Rightarrow> int" where
  "yearUp y t = (if DayFromYear (y + 1) \<le> t then yearUp (y + 1) t else y)"
  by pat_completeness auto
termination
proof (relation "measure (\<lambda>(y, t). nat (t - DayFromYear y))")
  show "wf (measure (\<lambda>(y, t). nat (t - DayFromYear y)))" by simp
next
  fix y t :: int
  assume "DayFromYear (y + 1) \<le> t"
  then show "((y + 1, t), (y, t)) \<in> measure (\<lambda>(y, t). nat (t - DayFromYear y))"
    using DayFromYear_less_Suc [of y] by simp
qed

function yearDown :: "int \<Rightarrow> Date \<Rightarrow> int" where
  "yearDown y t = (if t < DayFromYear y then yearDown (y - 1) t else y)"
  by pat_completeness auto
termination
proof (relation "measure (\<lambda>(y, t). nat (DayFromYear y - t))")
  show "wf (measure (\<lambda>(y, t). nat (DayFromYear y - t)))" by simp
next
  fix y t :: int
  assume "t < DayFromYear y"
  then show "((y - 1, t), (y, t)) \<in> measure (\<lambda>(y, t). nat (DayFromYear y - t))"
    using DayFromYear_less_Suc [of "y - 1"] by simp
qed

definition YearFromTime :: "Date \<Rightarrow> int" where
  "YearFromTime t = (if 0 \<le> t then yearUp 1970 t else yearDown 1969 t)"

declare yearUp.simps [simp del] yearDown.simps [simp del]

lemma yearUp_spec:
  "DayFromYear y \<le> t \<Longrightarrow> DayFromYear (yearUp y t) \<le> t \<and> t < DayFromYear (yearUp y t + 1)"
proof (induction y t rule: yearUp.induct)
  case (1 y t)
  show ?case
  proof (cases "DayFromYear (y + 1) \<le> t")
    case True
    then show ?thesis using "1.IH" by (subst (1 2) yearUp.simps) simp
  next
    case False
    then show ?thesis using "1.prems" by (subst (1 2) yearUp.simps) simp
  qed
qed

lemma yearDown_spec:
  "t < DayFromYear (y + 1) \<Longrightarrow>
     DayFromYear (yearDown y t) \<le> t \<and> t < DayFromYear (yearDown y t + 1)"
proof (induction y t rule: yearDown.induct)
  case (1 y t)
  show ?case
  proof (cases "t < DayFromYear y")
    case True
    then show ?thesis using "1.IH" by (subst (1 2) yearDown.simps) simp
  next
    case False
    then show ?thesis using "1.prems" by (subst (1 2) yearDown.simps) simp
  qed
qed

lemma DayFromYear_1970: "DayFromYear 1970 = 0"
  by (simp add: DayFromYear_def)

lemma YearFromTime_spec:
  "DayFromYear (YearFromTime t) \<le> t \<and> t < DayFromYear (YearFromTime t + 1)"
proof (cases "0 \<le> t")
  case True
  then show ?thesis
    using yearUp_spec [of 1970 t] by (simp add: YearFromTime_def DayFromYear_1970)
next
  case False
  then show ?thesis
    using yearDown_spec [of t 1969] by (simp add: YearFromTime_def DayFromYear_1970)
qed

lemma DayFromYear_mono_nat: "DayFromYear y \<le> DayFromYear (y + int n)"
proof (induction n)
  case 0
  show ?case by simp
next
  case (Suc n)
  have "DayFromYear (y + int n) < DayFromYear (y + int n + 1)"
    by (rule DayFromYear_less_Suc)
  moreover have "y + int (Suc n) = y + int n + 1"
    by simp
  ultimately show ?case using Suc by (simp only:)
qed

lemma DayFromYear_mono: "y \<le> y' \<Longrightarrow> DayFromYear y \<le> DayFromYear y'"
  using DayFromYear_mono_nat [of y "nat (y' - y)"] by simp

lemma YearFromTime_unique:
  assumes "DayFromYear y \<le> t" and "t < DayFromYear (y + 1)"
  shows "YearFromTime t = y"
proof (rule ccontr)
  assume neq: "YearFromTime t \<noteq> y"
  have spec: "DayFromYear (YearFromTime t) \<le> t" "t < DayFromYear (YearFromTime t + 1)"
    using YearFromTime_spec [of t] by simp_all
  show False
  proof (cases "YearFromTime t < y")
    case True
    then have "DayFromYear (YearFromTime t + 1) \<le> DayFromYear y"
      by (intro DayFromYear_mono) simp
    then show False using spec(2) assms(1) by simp
  next
    case False
    then have "DayFromYear (y + 1) \<le> DayFromYear (YearFromTime t)"
      using neq by (intro DayFromYear_mono) simp
    then show False using spec(1) assms(2) by simp
  qed
qed


definition InLeapYear :: "Date \<Rightarrow> int" where
  "InLeapYear t = (if DaysInYear (YearFromTime t) = 366 then 1 else 0)"

definition DayWithinYear :: "Date \<Rightarrow> int" where
  "DayWithinYear t = t - DayFromYear (YearFromTime t)"

definition MonthFromTime :: "Date \<Rightarrow> int" where
  "MonthFromTime t =
     (let d = DayWithinYear t; leap = InLeapYear t
      in if d < 31 then 0
         else if d < 59 + leap then 1
         else if d < 90 + leap then 2
         else if d < 120 + leap then 3
         else if d < 151 + leap then 4
         else if d < 181 + leap then 5
         else if d < 212 + leap then 6
         else if d < 243 + leap then 7
         else if d < 273 + leap then 8
         else if d < 304 + leap then 9
         else if d < 334 + leap then 10
         else 11)"

definition DateFromTime :: "Date \<Rightarrow> int" where
  "DateFromTime t =
     (let d = DayWithinYear t; leap = InLeapYear t; m = MonthFromTime t
      in if m = 0 then d + 1
         else if m = 1 then d - 30
         else if m = 2 then d - 58 - leap
         else if m = 3 then d - 89 - leap
         else if m = 4 then d - 119 - leap
         else if m = 5 then d - 150 - leap
         else if m = 6 then d - 180 - leap
         else if m = 7 then d - 211 - leap
         else if m = 8 then d - 242 - leap
         else if m = 9 then d - 272 - leap
         else if m = 10 then d - 303 - leap
         else d - 333 - leap)"

text \<open>
  \<^verbatim>\<open>MakeDay(year, month, date)\<close> finds the first day of month \<open>month mod 12\<close> of the
  year \<open>year + floor(month / 12)\<close> and adds \<open>date - 1\<close> days; \<open>daysBeforeMonth\<close> is the
  number of days of that year before that month. A date 0 is the last day of the month
  before.
\<close>

definition daysBeforeMonth :: "int \<Rightarrow> int \<Rightarrow> int" where
  "daysBeforeMonth ym mn =
     (let leap = (if DaysInYear ym = 366 then 1 else 0)
      in if mn = 0 then 0
         else if mn = 1 then 31
         else if mn = 2 then 59 + leap
         else if mn = 3 then 90 + leap
         else if mn = 4 then 120 + leap
         else if mn = 5 then 151 + leap
         else if mn = 6 then 181 + leap
         else if mn = 7 then 212 + leap
         else if mn = 8 then 243 + leap
         else if mn = 9 then 273 + leap
         else if mn = 10 then 304 + leap
         else 334 + leap)"

definition MakeDay :: "int \<Rightarrow> int \<Rightarrow> int \<Rightarrow> Date" where
  "MakeDay year month date =
     (let ym = year + month div 12;
          mn = month mod 12;
          t = DayFromYear ym + daysBeforeMonth ym mn
      in t + date - 1)"

text \<open>
  date-fns: \<^verbatim>\<open>startOfMonth\<close> is \<^verbatim>\<open>setDate(1)\<close>, and \<^verbatim>\<open>endOfMonth\<close> is
  \<^verbatim>\<open>setFullYear(year, month + 1, 0)\<close> with the time set to the last instant of that
  day. \<^verbatim>\<open>endOfWeek\<close> returns the last instant of a day too;
  \<^verbatim>\<open>eachDayOfInterval\<close> only reads the day of its end, which is what the model keeps.
\<close>

definition startOfMonth :: "Date \<Rightarrow> Date" where
  "startOfMonth date = MakeDay (YearFromTime date) (MonthFromTime date) 1"

definition endOfMonth :: "Date \<Rightarrow> Date" where
  "endOfMonth date = MakeDay (YearFromTime date) (MonthFromTime date + 1) 0"

text \<open>The first day of the month after month \<open>m\<close> of year \<open>y\<close>, counted from the year's start.\<close>

definition monthLimit :: "int \<Rightarrow> int \<Rightarrow> int" where
  "monthLimit y m = (if m = 11 then DaysInYear y else daysBeforeMonth y (m + 1))"

text \<open>
  \<^verbatim>\<open>getDay\<close> is \<^verbatim>\<open>WeekDay(t) = (Day(t) + 4) mod 7\<close>, with Sunday = 0: day 0
  (1970-01-01) was a Thursday. \<^verbatim>\<open>startOfWeek\<close> and \<^verbatim>\<open>endOfWeek\<close> are called without
  options, so weeks start on Sunday.
\<close>

definition getDay :: "Date \<Rightarrow> int" where
  "getDay d = (d + 4) mod 7"

text \<open>
  The day number of a civil date given as year, month (1 to 12) and day, for writing
  dates down: days are counted in 400-year eras that start on 1 March.
\<close>

definition days_from_civil :: "int \<Rightarrow> int \<Rightarrow> int \<Rightarrow> Date" where
  "days_from_civil y m d =
     (let y' = (if m \<le> 2 then y - 1 else y);
          era = y' div 400;
          yoe = y' mod 400;
          doy = (153 * (if m > 2 then m - 3 else m + 9) + 2) div 5 + d - 1;
          doe = yoe * 365 + yoe div 4 - yoe div 100 + doy
      in era * 146097 + doe - 719468)"

definition startOfWeek :: "Date \<Rightarrow> Date" where
  "startOfWeek date = addDays date (- getDay date)"

definition endOfWeek :: "Date \<Rightarrow> Date" where
  "endOfWeek date = addDays date (6 - getDay date)"

text \<open>
  \<^verbatim>\<open>eachDayOfInterval\<close>: every day from the start through the end. The calendar only
  calls it with a start that is not after the end.
\<close>

definition eachDayOfInterval :: "Date \<Rightarrow> Date \<Rightarrow> Date list" where
  "eachDayOfInterval start finish = [start..finish]"

definition monthStart :: "Date \<Rightarrow> Date" where
  "monthStart currentDate = startOfMonth currentDate"

definition monthEnd :: "Date \<Rightarrow> Date" where
  "monthEnd currentDate = endOfMonth currentDate"

definition calendarStart :: "Date \<Rightarrow> Date" where
  "calendarStart currentDate = startOfWeek (monthStart currentDate)"

definition calendarEnd :: "Date \<Rightarrow> Date" where
  "calendarEnd currentDate = endOfWeek (monthEnd currentDate)"

definition days :: "Date \<Rightarrow> Date list" where
  "days currentDate = eachDayOfInterval (calendarStart currentDate) (calendarEnd currentDate)"

text \<open>
  The loop \<^verbatim>\<open>for (let i = 0; i < days.length; i += 7) weeks.push(days.slice(i, i + 7))\<close>.
\<close>

function weeksFrom :: "nat \<Rightarrow> Date list \<Rightarrow> Date list list" where
  "weeksFrom i ds = (if i < length ds then take 7 (drop i ds) # weeksFrom (i + 7) ds else [])"
  by pat_completeness auto
termination
  by (relation "measure (\<lambda>(i, ds). length ds - i)") auto

definition weeks :: "Date \<Rightarrow> Date list list" where
  "weeks currentDate = weeksFrom 0 (days currentDate)"

section \<open>TaskFilter: the visible tasks\<close>

text \<open>
  \<^verbatim>\<open>getTime\<close> of a local midnight, in milliseconds; the local zone is taken to be UTC,
  without daylight saving. \<open>now\<close> is \<^verbatim>\<open>new Date().getTime()\<close>, any instant. The quotient
  is exact here; in the source it is a double, which rounds to the same ceiling for every
  pair of valid dates.
\<close>

definition getTime :: "Date \<Rightarrow> int" where
  "getTime d = d * (24 * 60 * 60 * 1000)"

definition daysDiff :: "Task \<Rightarrow> int \<Rightarrow> int" where
  "daysDiff task now =
     \<lceil>(of_int (getTime (startDate task) - now) :: rat) / (1000 * 60 * 60 * 1000)\<rceil>"

definition visible ::
  "TaskCategory list \<Rightarrow> TimeFilter \<Rightarrow> string list \<Rightarrow> int \<Rightarrow> Task \<Rightarrow> bool" where
  "visible categoryFilters timeFilter userFilters now task =
     (if category task \<notin> set categoryFilters then False
      else if assignedUser task \<notin> set userFilters then False
      else if timeFilter \<noteq> All then
        (case timeFilter of
           OneWeek \<Rightarrow> daysDiff task now \<le> 7
         | TwoWeeks \<Rightarrow> daysDiff task now \<le> 14
         | ThreeWeeks \<Rightarrow> daysDiff task now \<le> 21
         | All \<Rightarrow> True)
      else True)"

definition filteredTasks ::
  "TaskCategory list \<Rightarrow> TimeFilter \<Rightarrow> string list \<Rightarrow> int \<Rightarrow> Task list \<Rightarrow> Task list" where
  "filteredTasks categoryFilters timeFilter userFilters now ts =
     filter (visible categoryFilters timeFilter userFilters now) ts"

section \<open>WeekProjector: the strips of one week row\<close>

text \<open>
  The local time zone, as ECMAScript's \<^verbatim>\<open>LocalTZA(t, isUTC)\<close>: the offset of local
  time from UTC in milliseconds, in effect at the instant \<open>t\<close> (\<open>offsetAtUTC\<close>) or at the
  local time value \<open>t\<close> (\<open>offsetAtLocal\<close>). \<open>midnight\<close> is \<^verbatim>\<open>getTime()\<close> of the
  \<^verbatim>\<open>Date\<close> that is the local midnight of a day, \<^verbatim>\<open>UTC(t) = t - LocalTZA(t, false)\<close>;
  \<open>dayOf\<close> is the local calendar day of an instant, the day of
  \<^verbatim>\<open>LocalTime(t) = t + LocalTZA(t, true)\<close>.
\<close>

record TimeZone =
  offsetAtUTC :: "int \<Rightarrow> int"
  offsetAtLocal :: "int \<Rightarrow> int"

definition msPerDay :: int where
  "msPerDay = 24 * 60 * 60 * 1000"

definition midnight :: "TimeZone \<Rightarrow> Date \<Rightarrow> int" where
  "midnight zone d = d * msPerDay - offsetAtLocal zone (d * msPerDay)"

definition dayOf :: "TimeZone \<Rightarrow> int \<Rightarrow> Date" where
  "dayOf zone t = (t + offsetAtUTC zone t) div msPerDay"

text \<open>
  \<^verbatim>\<open>getTasksForWeek\<close>. The end of the week is the instant \<^verbatim>\<open>6 * 24\<close> hours after the
  instant of the week's start, and \<^verbatim>\<open>eachDayOfInterval\<close> runs through the local day of
  that instant. The days are compared with the tasks' dates as local midnights, by their
  day numbers.
\<close>

definition getTasksForWeek :: "TimeZone \<Rightarrow> Task list \<Rightarrow> Date \<Rightarrow> Task list" where
  "getTasksForWeek zone filtered weekStart =
     (let weekDays = eachDayOfInterval weekStart
            (dayOf zone (midnight zone weekStart + 6 * 24 * 60 * 60 * 1000))
      in filter (\<lambda>task. list_ex (\<lambda>day. day \<ge> startDate task \<and> day \<le> endDate task) weekDays)
           filtered)"

text \<open>\<^verbatim>\<open>Array.prototype.findIndex\<close>: the first index whose element passes, or -1.\<close>

fun findIndex :: "('a \<Rightarrow> bool) \<Rightarrow> 'a list \<Rightarrow> int" where
  "findIndex P [] = - 1"
| "findIndex P (x # xs) =
     (if P x then 0 else (let r = findIndex P xs in if r = - 1 then - 1 else r + 1))"

text \<open>
  What \<^verbatim>\<open>TaskStrip\<close> computes before it renders; \<open>None\<close> is the early \<^verbatim>\<open>return null\<close>.
  A row of fewer than seven days has no \<^verbatim>\<open>weekDays[6]\<close>: the minimum with
  \<^verbatim>\<open>undefined\<close> is an invalid date, which no day equals, so nothing is rendered.
\<close>

record Strip =
  taskStart :: Date
  taskEnd :: Date
  startDayIndex :: int
  endDayIndex :: int
  leftPercent :: rat
  widthPercent :: rat
  topOffset :: int
  isTaskStart :: bool
  isTaskEnd :: bool

definition TaskStrip :: "Task \<Rightarrow> Date \<Rightarrow> Date list \<Rightarrow> nat \<Rightarrow> Strip option" where
  "TaskStrip task weekStart weekDays taskIndex =
     (if length weekDays < 7 then None
      else
        (let weekEnd = weekDays ! 6;
             tStart = max (startDate task) weekStart;
             tEnd = min (endDate task) weekEnd;
             sIdx = findIndex (\<lambda>day. isSameDay day tStart) weekDays;
             eIdx = findIndex (\<lambda>day. isSameDay day tEnd) weekDays
         in if sIdx = - 1 \<or> eIdx = - 1 then None
            else Some
              \<lparr>taskStart = tStart, taskEnd = tEnd, startDayIndex = sIdx, endDayIndex = eIdx,
               leftPercent = (of_int sIdx / 7) * 100,
               widthPercent = (of_int (eIdx - sIdx + 1) / 7) * 100,
               topOffset = 25 + (int taskIndex * 28) + (int taskIndex * 3),
               isTaskStart = isSameDay tStart (startDate task),
               isTaskEnd = isSameDay tEnd (endDate task)\<rparr>))"

text \<open>
  The strips of a week row, as \<^verbatim>\<open>Calendar\<close> maps them:
  \<^verbatim>\<open>getTasksForWeek(week[0]).map((task, taskIndex) => <TaskStrip .../>)\<close>.
\<close>

definition weekStrips :: "TimeZone \<Rightarrow> Task list \<Rightarrow> Date list \<Rightarrow> Strip option list" where
  "weekStrips zone filtered week =
     map (\<lambda>(taskIndex, task). TaskStrip task (week ! 0) week taskIndex)
       (enumerate 0 (getTasksForWeek zone filtered (week ! 0)))"

text \<open>
  The week segment as the specification words it, to compare \<^verbatim>\<open>TaskStrip\<close> with: the
  task's interval clipped to the week, the 0-based columns of the clipped interval, the
  percentages of the row's width, and a vertical offset of a base of 25 pixels plus 31
  pixels for each lane.
\<close>

definition weekSegment :: "Task \<Rightarrow> Date \<Rightarrow> nat \<Rightarrow> Strip" where
  "weekSegment task weekStart lane =
     (let weekEnd = weekStart + 6;
          visibleStart = max (startDate task) weekStart;
          visibleEnd = min (endDate task) weekEnd;
          startIndex = visibleStart - weekStart;
          endIndex = visibleEnd - weekStart
      in \<lparr>taskStart = visibleStart, taskEnd = visibleEnd,
          startDayIndex = startIndex, endDayIndex = endIndex,
          leftPercent = of_int startIndex / 7 * 100,
          widthPercent = of_int (endIndex - startIndex + 1) / 7 * 100,
          topOffset = 25 + 31 * int lane,
          isTaskStart = (visibleStart = startDate task),
          isTaskEnd = (visibleEnd = endDate task)\<rparr>)"

text \<open>
  \<^verbatim>\<open>handleMouseDown\<close> of a strip: \<open>clickX\<close> is the pointer's distance from the strip's
  left border and \<open>width\<close> the strip's rendered width, in pixels. A pointer-down within
  10 pixels of a true boundary starts a resize, any other one starts a drag from the day
  under the pointer.
\<close>

definition stripHandleMouseDown ::
  "Task \<Rightarrow> Date \<Rightarrow> Date list \<Rightarrow> rat \<Rightarrow> rat \<Rightarrow> AppState \<Rightarrow> AppState" where
  "stripHandleMouseDown task weekStart weekDays clickX width s =
     (case TaskStrip task weekStart weekDays 0 of
        None \<Rightarrow> s
      | Some g \<Rightarrow>
          (let isLeftEdge = clickX < 10;
               isRightEdge = clickX > width - 10
           in if isLeftEdge \<and> isSameDay (taskStart g) (startDate task)
              then handleTaskResizeStart task ResizeLeft s
              else if isRightEdge \<and> isSameDay (taskEnd g) (endDate task)
              then handleTaskResizeStart task ResizeRight s
              else
                (let clickedDayIndex =
                       \<lfloor>(clickX / width) * of_int (endDayIndex g - startDayIndex g + 1)\<rfloor>;
                     clickedDay = addDays (taskStart g) clickedDayIndex
                 in handleTaskDragStart task clickedDay s)))"

section \<open>Persistence: the localStorage effects\<close>






text \<open>The enumerations as \<^verbatim>\<open>TaskModal\<close> lists and labels them.\<close>

definition priorities :: "TaskPriority list" where
  "priorities = [P0, P1, P2]"



section \<open>Reachable states\<close>

text \<open>
  The states the program reaches from its initial state by the events the browser
  delivers: pointer-down, pointer-enter on a day cell, pointer-up and pointer-leave on
  the grid, pointer-down and click on the strip of a task of the collection, and the
  modal's save, close and delete. No order is imposed on the events. The first argument
  collects the ids \<^verbatim>\<open>generateId\<close> has issued: a save receives an id that is not among
  them.
\<close>

inductive reachable :: "string set \<Rightarrow> AppState \<Rightarrow> bool" where
  initial: "reachable {} initialState"
| cellMouseDown: "reachable ids s \<Longrightarrow> reachable ids (handleMouseDown day s)"
| cellMouseEnter: "reachable ids s \<Longrightarrow> reachable ids (handleMouseEnter day s)"
| mouseUp: "reachable ids s \<Longrightarrow> reachable ids (handleMouseUp s)"
| mouseLeave: "reachable ids s \<Longrightarrow> reachable ids (handleMouseLeave s)"
| stripMouseDown:
    "reachable ids s \<Longrightarrow> task \<in> set (tasks s) \<Longrightarrow> 0 < width
       \<Longrightarrow> reachable ids (stripHandleMouseDown task weekStart weekDays clickX width s)"
| stripClick: "reachable ids s \<Longrightarrow> task \<in> set (tasks s) \<Longrightarrow> reachable ids (handleTaskEdit task s)"
| modalSave:
    "reachable ids s \<Longrightarrow> generatedId \<notin> ids
       \<Longrightarrow> reachable (insert generatedId ids) (handleModalSave generatedId nm cat user prio col s)"
| modalClose: "reachable ids s \<Longrightarrow> reachable ids (handleModalClose s)"
| modalDelete: "reachable ids s \<Longrightarrow> reachable ids (handleModalClose (onTaskDelete taskId s))"

section \<open>The running program\<close>



text \<open>Every task, and the task the modal is open for, has a user.\<close>

definition usersNamed :: "AppState \<Rightarrow> bool" where
  "usersNamed s \<longleftrightarrow>
     (\<forall>t \<in> set (tasks s). assignedUser t \<noteq> '''')
     \<and> (\<forall>t. selectedTask s = Some t \<longrightarrow> assignedUser t \<noteq> '''')"

section \<open>Gesture invariants\<close>

text \<open>
  What a run of pointer-enter events does to a selection: each event pairs the stored
  start of the range, not the day of the pointer-down, with the entered day.
\<close>

fun selectionAfter :: "Date \<times> Date \<Rightarrow> Date list \<Rightarrow> Date \<times> Date" where
  "selectionAfter r [] = r"
| "selectionAfter (lo, hi) (day # ds) = selectionAfter (min lo day, max lo day) ds"

text \<open>
  What holds all through a resize gesture on the task \<open>t\<close>: the copy in
  \<^verbatim>\<open>resizingTask\<close> is \<open>t\<close>, and every task with its id still has the boundary that the
  gesture does not move, so that the guard against the copy is the guard against the
  task as it is now.
\<close>

definition resizingOf :: "Task \<Rightarrow> ResizeMode \<Rightarrow> AppState \<Rightarrow> bool" where
  "resizingOf t mode s \<longleftrightarrow>
     (\<exists>r. resizingTask s = Some r \<and> r_task r = t \<and> r_mode r = mode)
     \<and> (\<forall>u \<in> set (tasks s). task_id u = task_id t \<longrightarrow>
          startDate u \<le> endDate u
          \<and> (if mode = ResizeRight then startDate u = startDate t
              else endDate u = endDate t))"

text \<open>
  The invariant that every event keeps. Besides \<open>startDate \<le> endDate\<close> for every task
  it says that ids are distinct and were all issued; that the copies held by the gesture
  state and by the modal, and the selection, are ordered; and that while a task is
  resized, the boundary its gesture does not move is still the one of the copy in
  \<^verbatim>\<open>resizingTask\<close>, against which the guard is evaluated.
\<close>

definition tasksOrdered :: "string set \<Rightarrow> Task list \<Rightarrow> bool" where
  "tasksOrdered ids ts \<longleftrightarrow>
     (\<forall>t \<in> set ts. startDate t \<le> endDate t \<and> task_id t \<in> ids) \<and> distinct (map task_id ts)"

definition copiesOrdered :: "AppState \<Rightarrow> bool" where
  "copiesOrdered s \<longleftrightarrow>
     (\<forall>t. draggedTask s = Some t \<longrightarrow> startDate t \<le> endDate t)
     \<and> (\<forall>t. selectedTask s = Some t \<longrightarrow> startDate t \<le> endDate t)
     \<and> (\<forall>a b. sel_startDate (dragSelection s) = Some a \<longrightarrow>
            sel_endDate (dragSelection s) = Some b \<longrightarrow> a \<le> b)"

definition resizeCopyCurrent :: "string set \<Rightarrow> Resizing option \<Rightarrow> Task list \<Rightarrow> bool" where
  "resizeCopyCurrent ids rz ts \<longleftrightarrow>
     (\<forall>r. rz = Some r \<longrightarrow>
        task_id (r_task r) \<in> ids
        \<and> (\<forall>u \<in> set ts. task_id u = task_id (r_task r) \<longrightarrow>
              (if r_mode r = ResizeRight then startDate u = startDate (r_task r)
               else endDate u = endDate (r_task r))))"

definition gestureInv :: "string set \<Rightarrow> AppState \<Rightarrow> bool" where
  "gestureInv ids s \<longleftrightarrow>
     tasksOrdered ids (tasks s) \<and> copiesOrdered s
     \<and> resizeCopyCurrent ids (resizingTask s) (tasks s)"

section \<open>Example data\<close>

definition june :: "int \<Rightarrow> Date" where
  "june d = days_from_civil 2024 6 d"

definition exampleTask :: "string \<Rightarrow> Date \<Rightarrow> Date \<Rightarrow> Task" where
  "exampleTask i sd ed =
     \<lparr>task_id = i, name = ''Write report'', category = ToDo, startDate = sd, endDate = ed,
      assignedUser = ''John Doe'', priority = P1, color = Blue\<rparr>"

definition withTasks :: "Task list \<Rightarrow> AppState" where
  "withTasks ts = initialState\<lparr>tasks := ts\<rparr>"

definition draggingExample :: AppState where
  "draggingExample =
     handleTaskDragStart (exampleTask ''a'' (june 10) (june 12)) (june 11)
       (withTasks [exampleTask ''a'' (june 10) (june 12)])"

definition createdExample :: AppState where
  "createdExample =
     handleModalSave ''t1'' ''Write report'' ToDo ''John Doe'' P1 Blue
       (handleMouseUp (handleMouseEnter (june 15) (handleMouseDown (june 12) initialState)))"

definition november :: "int \<Rightarrow> Date" where
  "november d = days_from_civil 2024 11 d"

text \<open>The zone of UTC, and the offsets of New York from March 2024 to March 2025: four
  hours behind UTC until the clocks go back at 06:00 UTC (02:00 local time) on 3 November
  2024, five hours behind from then on.\<close>

definition utc :: TimeZone where
  "utc = \<lparr>offsetAtUTC = (\<lambda>t. 0), offsetAtLocal = (\<lambda>t. 0)\<rparr>"

definition newYork :: TimeZone where
  "newYork =
     \<lparr>offsetAtUTC = (\<lambda>t. if t < november 3 * msPerDay + 6 * 60 * 60 * 1000
                           then - (4 * 60 * 60 * 1000) else - (5 * 60 * 60 * 1000)),
      offsetAtLocal = (\<lambda>t. if t < november 3 * msPerDay + 2 * 60 * 60 * 1000
                             then - (4 * 60 * 60 * 1000) else - (5 * 60 * 60 * 1000))\<rparr>"

definition may2024 :: Date where
  "may2024 = days_from_civil 2024 5 15"

section \<open>Frame properties of update and delete\<close>

lemma length_updateTask: "length (updateTask taskId updates ts) = length ts"
  by (simp add: updateTask_def)

lemma updateTask_nth_other:
  "i < length ts \<Longrightarrow> task_id (ts ! i) \<noteq> taskId \<Longrightarrow> updateTask taskId updates ts ! i = ts ! i"
  by (simp add: updateTask_def)

lemma updateTask_absent:
  "\<forall>t \<in> set ts. task_id t \<noteq> taskId \<Longrightarrow> updateTask taskId updates ts = ts"
  by (induction ts) (simp_all add: updateTask_def)

lemma subseq_deleteTask: "subseq (deleteTask taskId ts) ts"
  by (simp add: deleteTask_def)

lemma count_deleteTask:
  "count_list (deleteTask taskId ts) t = (if task_id t = taskId then 0 else count_list ts t)"
  by (induction ts) (auto simp: deleteTask_def)

text \<open>
  Claim C10. Updating by id keeps the length of the collection and the position of every
  task; a task with another id is unchanged in every field, and the collection is
  unchanged when no task has the id. Deleting by id removes exactly the tasks with that
  id: what remains is a subsequence of the collection (the relative order is kept) with
  every other task as often as before.
\<close>

theorem updateTask_deleteTask_frame:
  "length (updateTask taskId updates ts) = length ts
   \<and> (\<forall>i < length ts. task_id (ts ! i) \<noteq> taskId \<longrightarrow> updateTask taskId updates ts ! i = ts ! i)
   \<and> ((\<forall>t \<in> set ts. task_id t \<noteq> taskId) \<longrightarrow> updateTask taskId updates ts = ts)
   \<and> subseq (deleteTask taskId ts) ts
   \<and> (\<forall>t. count_list (deleteTask taskId ts) t
          = (if task_id t = taskId then 0 else count_list ts t))"
  using length_updateTask updateTask_nth_other updateTask_absent subseq_deleteTask
    count_deleteTask
  by blast

theorem updateTask_deleteTask_frame_witness:
  "updateTask ''a'' (noUpdates\<lparr>u_name := Some ''Plan''\<rparr>)
       [exampleTask ''a'' 1 2, exampleTask ''b'' 3 4] ! 1 = exampleTask ''b'' 3 4
   \<and> updateTask ''c'' (noUpdates\<lparr>u_name := Some ''Plan''\<rparr>)
       [exampleTask ''a'' 1 2, exampleTask ''b'' 3 4]
       = [exampleTask ''a'' 1 2, exampleTask ''b'' 3 4]
   \<and> count_list (deleteTask ''a'' [exampleTask ''a'' 1 2, exampleTask ''b'' 3 4])
        (exampleTask ''b'' 3 4) = 1
   \<and> count_list (deleteTask ''a'' [exampleTask ''a'' 1 2, exampleTask ''b'' 3 4])
        (exampleTask ''a'' 1 2) = 0"
  using updateTask_deleteTask_frame
      [of "''a''" "noUpdates\<lparr>u_name := Some ''Plan''\<rparr>"
          "[exampleTask ''a'' 1 2, exampleTask ''b'' 3 4]"]
    updateTask_deleteTask_frame
      [of "''c''" "noUpdates\<lparr>u_name := Some ''Plan''\<rparr>"
          "[exampleTask ''a'' 1 2, exampleTask ''b'' 3 4]"]
  by (simp add: exampleTask_def)

section \<open>Selection, drag and resize gestures\<close>

lemma june_eq: "june d = 19874 + d"
  by (simp add: june_def days_from_civil_def)

lemma spread_startDate:
  "spread u (noUpdates\<lparr>u_startDate := Some a\<rparr>) = u\<lparr>startDate := a\<rparr>"
  by (simp add: spread_def noUpdates_def)

lemma spread_endDate:
  "spread u (noUpdates\<lparr>u_endDate := Some b\<rparr>) = u\<lparr>endDate := b\<rparr>"
  by (simp add: spread_def noUpdates_def)

lemma spread_dates:
  "spread u (noUpdates\<lparr>u_startDate := Some a, u_endDate := Some b\<rparr>)
     = u\<lparr>startDate := a, endDate := b\<rparr>"
  by (simp add: spread_def noUpdates_def)

lemma tasks_selectTo [simp]: "tasks (selectTo day s) = tasks s"
  by (simp add: selectTo_def split: option.splits)

lemma resizingTask_selectTo [simp]: "resizingTask (selectTo day s) = resizingTask s"
  by (simp add: selectTo_def split: option.splits)

lemma draggedTask_selectTo [simp]: "draggedTask (selectTo day s) = draggedTask s"
  by (simp add: selectTo_def split: option.splits)

lemma resizingTask_resizeTo [simp]: "resizingTask (resizeTo day s) = resizingTask s"
  by (simp add: resizeTo_def onTaskUpdate_def split: option.splits ResizeMode.splits)

lemma resizeTo_idle [simp]: "resizingTask s = None \<Longrightarrow> resizeTo day s = s"
  by (simp add: resizeTo_def)

lemma tasks_commitSelection_dragging [simp]:
  "draggedTask s \<noteq> None \<Longrightarrow> commitSelection s = s"
  by (auto simp: commitSelection_def split: option.splits)

lemma tasks_handleMouseEnter_idle:
  "resizingTask s = None \<Longrightarrow> tasks (handleMouseEnter day s) = tasks s"
  by (simp add: handleMouseEnter_def)

lemma handleMouseEnter_dragging:
  assumes "draggedTask s = Some t" and "resizingTask s = None"
  shows "handleMouseEnter day s = s\<lparr>hoveredDay := Some day\<rparr>"
  using assms by (simp add: handleMouseEnter_def selectTo_def split: option.splits)

lemma handleMouseUp_drop:
  assumes "draggedTask s = Some t" and "hoveredDay s = Some day"
  shows "tasks (handleMouseUp s)
     = updateTask (task_id t)
         (noUpdates\<lparr>u_startDate := Some (addDays day (- dragOffset s)),
            u_endDate := Some (addDays (addDays day (- dragOffset s))
                                 (differenceInDays (endDate t) (startDate t)))\<rparr>)
         (tasks s)"
  using assms
  by (simp add: handleMouseUp_def dropOnHovered_def handleTaskDrop_def onTaskUpdate_def Let_def)

text \<open>
  Claim C4. A task of the collection is grabbed on the day \<open>dayClicked\<close>, the pointer
  enters the day \<open>d\<close> and is released. Every task with the grabbed task's id, the grabbed
  task among them, then starts on \<open>d - dayOffset\<close>, where \<open>dayOffset\<close> is the distance
  from the task's start to the grabbed day, and ends as many days after its start as the
  task did when it was grabbed; every other task is unchanged.
\<close>

theorem drag_move_keeps_duration:
  assumes "resizingTask s = None"
    and "t \<in> set (tasks s)"
    and "dayOffset = differenceInDays dayClicked (startDate t)"
    and "s' = handleMouseUp (handleMouseEnter d (handleTaskDragStart t dayClicked s))"
    and "t' = t\<lparr>startDate := d - dayOffset, endDate := d - dayOffset + (endDate t - startDate t)\<rparr>"
  shows "dragOffset (handleTaskDragStart t dayClicked s) = dayOffset
    \<and> tasks s' =
         map (\<lambda>u. if task_id u = task_id t
                  then u\<lparr>startDate := d - dayOffset,
                         endDate := d - dayOffset + (endDate t - startDate t)\<rparr>
                  else u) (tasks s)
    \<and> t' \<in> set (tasks s')
    \<and> endDate t' - startDate t' = endDate t - startDate t"
proof -
  let ?s1 = "handleTaskDragStart t dayClicked s"
  have off: "dragOffset ?s1 = dayOffset"
    using assms(3) by (simp add: handleTaskDragStart_def)
  have dragged: "draggedTask ?s1 = Some t" and idle: "resizingTask ?s1 = None"
    and same: "tasks ?s1 = tasks s"
    using assms(1) by (simp_all add: handleTaskDragStart_def)
  have entered: "handleMouseEnter d ?s1 = ?s1\<lparr>hoveredDay := Some d\<rparr>"
    by (rule handleMouseEnter_dragging [OF dragged idle])
  have "tasks s' = updateTask (task_id t)
         (noUpdates\<lparr>u_startDate := Some (addDays d (- dayOffset)),
            u_endDate := Some (addDays (addDays d (- dayOffset))
                                 (differenceInDays (endDate t) (startDate t)))\<rparr>)
         (tasks s)"
    using handleMouseUp_drop [of "?s1\<lparr>hoveredDay := Some d\<rparr>" t d] dragged off same
    by (simp add: assms(4) entered)
  then have moved: "tasks s' =
         map (\<lambda>u. if task_id u = task_id t
                  then u\<lparr>startDate := d - dayOffset,
                         endDate := d - dayOffset + (endDate t - startDate t)\<rparr>
                  else u) (tasks s)"
    by (simp add: updateTask_def spread_dates addDays_def differenceInDays_def)
  have "t' \<in> set (tasks s')"
    unfolding moved assms(5) using assms(2) by (auto simp: image_iff intro!: bexI [of _ t])
  moreover have "endDate t' - startDate t' = endDate t - startDate t"
    by (simp add: assms(5))
  ultimately show ?thesis using off moved by blast
qed

text \<open>Scenario B: the task 10 to 12 June, grabbed on 11 June and dropped on 20 June.\<close>

theorem drag_move_keeps_duration_witness:
  "tasks (handleMouseUp (handleMouseEnter (june 20)
       (handleTaskDragStart (exampleTask ''a'' (june 10) (june 12)) (june 11)
          (withTasks [exampleTask ''a'' (june 10) (june 12)]))))
     = [exampleTask ''a'' (june 19) (june 21)]
   \<and> dragOffset (handleTaskDragStart (exampleTask ''a'' (june 10) (june 12)) (june 11)
        (withTasks [exampleTask ''a'' (june 10) (june 12)])) = 1"
  using drag_move_keeps_duration
    [of "withTasks [exampleTask ''a'' (june 10) (june 12)]"
        "exampleTask ''a'' (june 10) (june 12)" 1 "june 11" _ "june 20", OF _ _ _ refl refl]
  by (simp add: withTasks_def initialState_def exampleTask_def differenceInDays_def june_eq)

text \<open>
  Claim C5, as stated, fails: while a task is dragged, entering a day leaves the
  collection as it is. The task 10 to 12 June, grabbed on 11 June, is still on 10 to 12
  June after the pointer entered 20 June, not on 19 to 21 June.
\<close>

theorem drag_hover_counterexample:
  "draggedTask draggingExample = Some (exampleTask ''a'' (june 10) (june 12))
   \<and> dragOffset draggingExample = 1
   \<and> tasks (handleMouseEnter (june 20) draggingExample)
       = [exampleTask ''a'' (june 10) (june 12)]
   \<and> tasks (handleMouseEnter (june 20) draggingExample)
       \<noteq> [exampleTask ''a'' (june 20 - 1) (june 20 - 1 + (june 12 - june 10))]"
  by (simp add: draggingExample_def handleTaskDragStart_def handleMouseEnter_def
      withTasks_def initialState_def exampleTask_def differenceInDays_def june_eq)

text \<open>
  Claim C5, amended. While a task is dragged and none is resized, entering a day only
  records the hovered day: the collection and the dragged copy stay as they are. The move
  is applied by the pointer-up that follows, as one update by id, to
  \<open>newStart = day - dayOffset\<close> and \<open>newEnd = newStart + (end - start)\<close> of the copy
  taken when the task was grabbed.
\<close>

theorem drag_hover_defers_move:
  assumes "draggedTask s = Some t" and "resizingTask s = None"
  shows "tasks (handleMouseEnter day s) = tasks s
    \<and> hoveredDay (handleMouseEnter day s) = Some day
    \<and> draggedTask (handleMouseEnter day s) = Some t
    \<and> tasks (handleMouseUp (handleMouseEnter day s))
        = updateTask (task_id t)
            (noUpdates\<lparr>u_startDate := Some (day - dragOffset s),
               u_endDate := Some (day - dragOffset s + (endDate t - startDate t))\<rparr>)
            (tasks s)"
proof -
  have entered: "handleMouseEnter day s = s\<lparr>hoveredDay := Some day\<rparr>"
    by (rule handleMouseEnter_dragging [OF assms])
  have "tasks (handleMouseUp (s\<lparr>hoveredDay := Some day\<rparr>))
        = updateTask (task_id t)
            (noUpdates\<lparr>u_startDate := Some (day - dragOffset s),
               u_endDate := Some (day - dragOffset s + (endDate t - startDate t))\<rparr>)
            (tasks s)"
    using handleMouseUp_drop [of "s\<lparr>hoveredDay := Some day\<rparr>" t day] assms(1)
    by (simp add: addDays_def differenceInDays_def)
  then show ?thesis using assms(1) by (simp add: entered)
qed

theorem drag_hover_defers_move_witness:
  "tasks (handleMouseEnter (june 20) draggingExample) = tasks draggingExample
   \<and> hoveredDay (handleMouseEnter (june 20) draggingExample) = Some (june 20)
   \<and> tasks (handleMouseUp (handleMouseEnter (june 20) draggingExample))
       = [exampleTask ''a'' (june 19) (june 21)]"
proof -
  have dragged: "draggedTask draggingExample = Some (exampleTask ''a'' (june 10) (june 12))"
    and idle: "resizingTask draggingExample = None"
    by (simp_all add: draggingExample_def handleTaskDragStart_def withTasks_def
        initialState_def)
  have "dragOffset draggingExample = 1"
    and "tasks draggingExample = [exampleTask ''a'' (june 10) (june 12)]"
    by (simp_all add: draggingExample_def handleTaskDragStart_def withTasks_def
        initialState_def exampleTask_def differenceInDays_def june_eq)
  then show ?thesis
    using drag_hover_defers_move [OF dragged idle, of "june 20"]
    by (simp add: updateTask_def spread_dates exampleTask_def june_eq)
qed

subsection \<open>Resizing\<close>

lemma resizingOf_start:
  assumes "distinct (map task_id (tasks s))" and "t \<in> set (tasks s)"
    and "startDate t \<le> endDate t"
  shows "resizingOf t mode (handleTaskResizeStart t mode s)"
proof -
  have "u = t" if "u \<in> set (tasks s)" and "task_id u = task_id t" for u
    using that assms(1,2) by (meson distinct_map inj_onD)
  then show ?thesis
    using assms(3) by (auto simp: resizingOf_def handleTaskResizeStart_def)
qed

lemma resizingOf_enter:
  assumes "resizingOf t mode s"
  shows "resizingOf t mode (handleMouseEnter day s)"
proof -
  obtain r where r: "resizingTask s = Some r" "r_task r = t" "r_mode r = mode"
    using assms by (auto simp: resizingOf_def)
  have keep: "\<forall>u \<in> set (tasks s). task_id u = task_id t \<longrightarrow>
          startDate u \<le> endDate u
          \<and> (if mode = ResizeRight then startDate u = startDate t
              else endDate u = endDate t)"
    using assms by (simp add: resizingOf_def)
  show ?thesis
  proof (cases mode)
    case ResizeRight
    then show ?thesis
      using r keep
      by (auto simp: resizingOf_def handleMouseEnter_def resizeTo_def onTaskUpdate_def
          updateTask_def spread_endDate)
  next
    case ResizeLeft
    then show ?thesis
      using r keep
      by (auto simp: resizingOf_def handleMouseEnter_def resizeTo_def onTaskUpdate_def
          updateTask_def spread_startDate)
  qed
qed

lemma resizingOf_hovers:
  "resizingOf t mode s \<Longrightarrow> resizingOf t mode (hovers ds s)"
  by (induction ds arbitrary: s) (simp_all add: resizingOf_enter)

lemma resizingOf_rejected:
  assumes "resizingOf t mode s" and "u \<in> set (tasks s)" and "task_id u = task_id t"
    and "(mode = ResizeRight \<and> day < startDate u) \<or> (mode = ResizeLeft \<and> endDate u < day)"
  shows "tasks (handleMouseEnter day s) = tasks s"
proof -
  obtain r where r: "resizingTask s = Some r" "r_task r = t" "r_mode r = mode"
    using assms(1) by (auto simp: resizingOf_def)
  have "if mode = ResizeRight then startDate u = startDate t else endDate u = endDate t"
    using assms(1,2,3) by (simp add: resizingOf_def)
  then show ?thesis
    using r assms(4) by (auto simp: handleMouseEnter_def resizeTo_def)
qed

text \<open>
  Claim C6. A resize gesture starts on a task \<open>t\<close> of a collection with distinct ids,
  and the pointer enters any days \<open>ds\<close>. In the state reached, every task \<open>u\<close> with the
  id of \<open>t\<close> has \<open>startDate u \<le> endDate u\<close>; and entering a day that fails the edge guard
  against \<open>u\<close> as it is now (before its start when the end edge is dragged, after its end
  when the start edge is dragged) leaves the whole collection unchanged.
\<close>

theorem resize_guard_rejects:
  assumes "distinct (map task_id (tasks s0))"
    and "t \<in> set (tasks s0)"
    and "startDate t \<le> endDate t"
    and "s = hovers ds (handleTaskResizeStart t mode s0)"
    and "u \<in> set (tasks s)"
    and "task_id u = task_id t"
  shows "startDate u \<le> endDate u
    \<and> ((mode = ResizeRight \<and> day < startDate u) \<or> (mode = ResizeLeft \<and> endDate u < day)
         \<longrightarrow> tasks (handleMouseEnter day s) = tasks s)"
proof -
  have inv: "resizingOf t mode s"
    unfolding assms(4) by (intro resizingOf_hovers resizingOf_start assms(1,2,3))
  then have "startDate u \<le> endDate u"
    using assms(5,6) by (simp add: resizingOf_def)
  then show ?thesis
    using resizingOf_rejected [OF inv assms(5,6)] by blast
qed

text \<open>
  Scenario C: the task 10 to 14 June, resized from its right edge; after the pointer
  entered 12 June and 14 June, entering 8 June changes nothing.
\<close>

theorem resize_guard_rejects_witness:
  "tasks (hovers [june 12, june 14]
       (handleTaskResizeStart (exampleTask ''a'' (june 10) (june 14)) ResizeRight
          (withTasks [exampleTask ''a'' (june 10) (june 14)])))
     = [exampleTask ''a'' (june 10) (june 14)]
   \<and> tasks (handleMouseEnter (june 8)
        (hovers [june 12, june 14]
          (handleTaskResizeStart (exampleTask ''a'' (june 10) (june 14)) ResizeRight
             (withTasks [exampleTask ''a'' (june 10) (june 14)]))))
     = [exampleTask ''a'' (june 10) (june 14)]"
proof -
  let ?t = "exampleTask ''a'' (june 10) (june 14)"
  let ?s = "hovers [june 12, june 14] (handleTaskResizeStart ?t ResizeRight (withTasks [?t]))"
  have now: "tasks ?s = [?t]"
    by (simp add: handleTaskResizeStart_def handleMouseEnter_def selectTo_def resizeTo_def
        onTaskUpdate_def updateTask_def spread_endDate withTasks_def initialState_def
        noSelection_def exampleTask_def june_eq)
  have "distinct (map task_id (tasks (withTasks [?t])))" and "?t \<in> set (tasks (withTasks [?t]))"
    and "startDate ?t \<le> endDate ?t" and "?t \<in> set (tasks ?s)" and "june 8 < startDate ?t"
    unfolding now by (simp_all add: withTasks_def exampleTask_def june_eq)
  from resize_guard_rejects [OF this(1,2,3) refl this(4) refl, of "june 8"] this(5) now
  show ?thesis by simp
qed

subsection \<open>Selecting\<close>

lemma selecting_enter:
  assumes "isDragging s" and "draggedTask s = None" and "resizingTask s = None"
    and "sel_startDate (dragSelection s) = Some lo"
  shows "handleMouseEnter day s =
     s\<lparr>hoveredDay := Some day,
       dragSelection := \<lparr>sel_startDate = Some (min lo day), sel_endDate = Some (max lo day),
                          isSelecting = True\<rparr>\<rparr>"
  using assms by (simp add: handleMouseEnter_def selectTo_def min_def max_def)

lemma selecting_hovers:
  assumes "isDragging s" and "draggedTask s = None" and "resizingTask s = None"
    and "dragSelection s = \<lparr>sel_startDate = Some lo, sel_endDate = Some hi, isSelecting = True\<rparr>"
  shows "dragSelection (hovers ds s) =
     \<lparr>sel_startDate = Some (fst (selectionAfter (lo, hi) ds)),
      sel_endDate = Some (snd (selectionAfter (lo, hi) ds)), isSelecting = True\<rparr>"
  using assms
proof (induction ds arbitrary: s lo hi)
  case Nil
  then show ?case by simp
next
  case (Cons day ds)
  have step: "handleMouseEnter day s =
     s\<lparr>hoveredDay := Some day,
       dragSelection := \<lparr>sel_startDate = Some (min lo day), sel_endDate = Some (max lo day),
                          isSelecting = True\<rparr>\<rparr>"
    using Cons.prems by (intro selecting_enter) simp_all
  show ?case
    using Cons.IH [of "handleMouseEnter day s" "min lo day" "max lo day"] Cons.prems(1,2,3)
    by (simp add: step)
qed

text \<open>
  Claim C3 on the code: a selection that starts on 15 June and is dragged backward over
  14 and 13 June to 12 June holds, and commits, the range 12 to 13 June. The claim's range
  is 12 to 15 June, which the code reaches only when the pointer enters 12 June straight
  from 15 June.
\<close>

theorem selection_backward_drag:
  "dragSelection (hovers [june 14, june 13, june 12] (handleMouseDown (june 15) initialState))
     = \<lparr>sel_startDate = Some (june 12), sel_endDate = Some (june 13), isSelecting = True\<rparr>
   \<and> dragSelection (handleMouseUp
        (hovers [june 14, june 13, june 12] (handleMouseDown (june 15) initialState)))
     = \<lparr>sel_startDate = Some (june 12), sel_endDate = Some (june 13), isSelecting = False\<rparr>
   \<and> dragSelection (hovers [june 12] (handleMouseDown (june 15) initialState))
     = \<lparr>sel_startDate = Some (june 12), sel_endDate = Some (june 15), isSelecting = True\<rparr>"
  by (simp add: handleMouseDown_def nonNull_def handleMouseEnter_def selectTo_def resizeTo_def
      handleMouseUp_def commitSelection_def dropOnHovered_def handleDragSelection_def
      initialState_def noSelection_def june_eq)

section \<open>Visibility\<close>

lemma visible_iff:
  "visible cf tf uf now task \<longleftrightarrow>
     category task \<in> set cf \<and> assignedUser task \<in> set uf
     \<and> (tf = All
        \<or> getTime (startDate task) - now
            \<le> (case tf of OneWeek \<Rightarrow> 7 | TwoWeeks \<Rightarrow> 14 | ThreeWeeks \<Rightarrow> 21 | All \<Rightarrow> 0)
               * (1000 * 60 * 60 * 1000))"
  by (cases tf) (auto simp: visible_def daysDiff_def ceiling_le_iff pos_divide_le_eq)

text \<open>
  Claim C2 on the code: with both the category and the user active and the window
  "1week", a task that starts 30 days after \<open>now\<close> is visible. The quotient that the source
  names \<^verbatim>\<open>daysDiff\<close> divides the milliseconds by \<^verbatim>\<open>1000 * 60 * 60 * 1000\<close>, a thousand
  hours, so that it is 1 for this task, where the distance in days is 30.
\<close>

theorem filter_window_thousand_hours:
  "visible [ToDo] OneWeek [''John Doe''] (getTime (june 1))
      (exampleTask ''a'' (addDays (june 1) 30) (addDays (june 1) 30))
   \<and> daysDiff (exampleTask ''a'' (addDays (june 1) 30) (addDays (june 1) 30))
        (getTime (june 1)) = 1
   \<and> differenceInDays (startDate (exampleTask ''a'' (addDays (june 1) 30) (addDays (june 1) 30)))
        (june 1) = 30"
  by (simp add: visible_def daysDiff_def getTime_def exampleTask_def addDays_def
      differenceInDays_def june_eq ceiling_eq_iff ceiling_le_iff)

section \<open>The date invariant over the reachable states\<close>

lemma task_id_updateTask:
  "u_id updates = None \<Longrightarrow> map task_id (updateTask taskId updates ts) = map task_id ts"
  by (induction ts) (simp_all add: updateTask_def spread_def)

lemma in_updateTask:
  assumes "u \<in> set (updateTask taskId updates ts)"
  obtains v where "v \<in> set ts" and "u = (if task_id v = taskId then spread v updates else v)"
  using assms by (auto simp: updateTask_def)

lemma tasksOrdered_mono: "tasksOrdered ids ts \<Longrightarrow> ids \<subseteq> ids' \<Longrightarrow> tasksOrdered ids' ts"
  by (auto simp: tasksOrdered_def)

lemma resizeCopyCurrent_None [simp]: "resizeCopyCurrent ids None ts"
  by (simp add: resizeCopyCurrent_def)

text \<open>An update of fields other than the id and the dates keeps both parts.\<close>

lemma tasksOrdered_update_other:
  assumes "tasksOrdered ids ts" and "u_id updates = None" and "u_startDate updates = None"
    and "u_endDate updates = None"
  shows "tasksOrdered ids (updateTask taskId updates ts)"
  unfolding tasksOrdered_def
proof (intro conjI ballI)
  fix u assume "u \<in> set (updateTask taskId updates ts)"
  then obtain v where v: "v \<in> set ts"
    and u: "u = (if task_id v = taskId then spread v updates else v)"
    by (rule in_updateTask)
  have "startDate u = startDate v" "endDate u = endDate v" "task_id u = task_id v"
    using assms(2,3,4) by (simp_all add: u spread_def)
  with v assms(1) show "startDate u \<le> endDate u" and "task_id u \<in> ids"
    by (auto simp: tasksOrdered_def)
next
  show "distinct (map task_id (updateTask taskId updates ts))"
    using assms(1,2) by (simp add: task_id_updateTask tasksOrdered_def)
qed

lemma resizeCopyCurrent_update_other:
  assumes "resizeCopyCurrent ids rz ts" and "u_id updates = None"
    and "u_startDate updates = None" and "u_endDate updates = None"
  shows "resizeCopyCurrent ids rz (updateTask taskId updates ts)"
  unfolding resizeCopyCurrent_def
proof (intro allI impI conjI ballI)
  fix r assume r: "rz = Some r"
  then show "task_id (r_task r) \<in> ids"
    using assms(1) by (simp add: resizeCopyCurrent_def)
  fix u assume "u \<in> set (updateTask taskId updates ts)"
    and same: "task_id u = task_id (r_task r)"
  then obtain v where v: "v \<in> set ts"
    and u: "u = (if task_id v = taskId then spread v updates else v)"
    by (auto elim: in_updateTask)
  have eq: "startDate u = startDate v" "endDate u = endDate v" "task_id u = task_id v"
    using assms(2,3,4) by (simp_all add: u spread_def)
  show "if r_mode r = ResizeRight then startDate u = startDate (r_task r)
        else endDate u = endDate (r_task r)"
    using assms(1) r v same unfolding eq resizeCopyCurrent_def by auto
qed

text \<open>The move of a drop sets both dates, to an ordered pair.\<close>

lemma tasksOrdered_update_dates:
  assumes "tasksOrdered ids ts" and "a \<le> b"
  shows "tasksOrdered ids
     (updateTask taskId (noUpdates\<lparr>u_startDate := Some a, u_endDate := Some b\<rparr>) ts)"
  unfolding tasksOrdered_def
proof (intro conjI ballI)
  fix u
  assume "u \<in> set (updateTask taskId (noUpdates\<lparr>u_startDate := Some a, u_endDate := Some b\<rparr>) ts)"
  then obtain v where v: "v \<in> set ts"
    and u: "u = (if task_id v = taskId then v\<lparr>startDate := a, endDate := b\<rparr> else v)"
    by (auto elim: in_updateTask simp: spread_dates)
  with assms show "startDate u \<le> endDate u" and "task_id u \<in> ids"
    by (auto simp: tasksOrdered_def)
next
  show "distinct (map task_id
     (updateTask taskId (noUpdates\<lparr>u_startDate := Some a, u_endDate := Some b\<rparr>) ts))"
    using assms(1) by (simp add: task_id_updateTask tasksOrdered_def noUpdates_def)
qed

subsection \<open>Every handler keeps the invariant\<close>

lemma gestureInv_initial: "gestureInv {} initialState"
  by (simp add: gestureInv_def tasksOrdered_def copiesOrdered_def initialState_def
      noSelection_def)

lemma gestureInv_hoveredDay [simp]:
  "gestureInv ids (s\<lparr>hoveredDay := h\<rparr>) = gestureInv ids s"
  by (simp add: gestureInv_def copiesOrdered_def)

lemma gestureInv_handleMouseDown:
  "gestureInv ids s \<Longrightarrow> gestureInv ids (handleMouseDown day s)"
  by (simp add: handleMouseDown_def gestureInv_def copiesOrdered_def)

lemma gestureInv_selectTo:
  "gestureInv ids s \<Longrightarrow> gestureInv ids (selectTo day s)"
  by (auto simp: selectTo_def gestureInv_def copiesOrdered_def split: option.splits)

lemma tasksOrdered_resizeTo:
  assumes "tasksOrdered ids (tasks s)" and "resizeCopyCurrent ids (resizingTask s) (tasks s)"
  shows "tasksOrdered ids (tasks (resizeTo day s))"
proof (cases "resizingTask s")
  case None
  then show ?thesis using assms(1) by simp
next
  case (Some r)
  have cur: "\<forall>u \<in> set (tasks s). task_id u = task_id (r_task r) \<longrightarrow>
      (if r_mode r = ResizeRight then startDate u = startDate (r_task r)
       else endDate u = endDate (r_task r))"
    using assms(2) Some by (simp add: resizeCopyCurrent_def)
  have ord: "\<forall>t \<in> set (tasks s). startDate t \<le> endDate t \<and> task_id t \<in> ids"
    and dist: "distinct (map task_id (tasks s))"
    using assms(1) by (simp_all add: tasksOrdered_def)
  show ?thesis
  proof (cases "r_mode r")
    case ResizeRight
    show ?thesis
    proof (cases "day \<ge> startDate (r_task r)")
      case True
      have "tasksOrdered ids
         (updateTask (task_id (r_task r)) (noUpdates\<lparr>u_endDate := Some day\<rparr>) (tasks s))"
        unfolding tasksOrdered_def
      proof (intro conjI ballI)
        fix u
        assume "u \<in> set (updateTask (task_id (r_task r)) (noUpdates\<lparr>u_endDate := Some day\<rparr>)
                  (tasks s))"
        then obtain v where v: "v \<in> set (tasks s)"
          and u: "u = (if task_id v = task_id (r_task r) then v\<lparr>endDate := day\<rparr> else v)"
          by (auto elim: in_updateTask simp: spread_endDate)
        show "startDate u \<le> endDate u" and "task_id u \<in> ids"
          using v u ord cur True ResizeRight by auto
      next
        show "distinct (map task_id
           (updateTask (task_id (r_task r)) (noUpdates\<lparr>u_endDate := Some day\<rparr>) (tasks s)))"
          using dist by (simp add: task_id_updateTask noUpdates_def)
      qed
      then show ?thesis
        using Some ResizeRight True by (simp add: resizeTo_def onTaskUpdate_def)
    next
      case False
      then show ?thesis
        using Some ResizeRight assms(1) by (simp add: resizeTo_def)
    qed
  next
    case ResizeLeft
    show ?thesis
    proof (cases "day \<le> endDate (r_task r)")
      case True
      have "tasksOrdered ids
         (updateTask (task_id (r_task r)) (noUpdates\<lparr>u_startDate := Some day\<rparr>) (tasks s))"
        unfolding tasksOrdered_def
      proof (intro conjI ballI)
        fix u
        assume "u \<in> set (updateTask (task_id (r_task r)) (noUpdates\<lparr>u_startDate := Some day\<rparr>)
                  (tasks s))"
        then obtain v where v: "v \<in> set (tasks s)"
          and u: "u = (if task_id v = task_id (r_task r) then v\<lparr>startDate := day\<rparr> else v)"
          by (auto elim: in_updateTask simp: spread_startDate)
        show "startDate u \<le> endDate u" and "task_id u \<in> ids"
          using v u ord cur True ResizeLeft by auto
      next
        show "distinct (map task_id
           (updateTask (task_id (r_task r)) (noUpdates\<lparr>u_startDate := Some day\<rparr>) (tasks s)))"
          using dist by (simp add: task_id_updateTask noUpdates_def)
      qed
      then show ?thesis
        using Some ResizeLeft True by (simp add: resizeTo_def onTaskUpdate_def)
    next
      case False
      then show ?thesis
        using Some ResizeLeft assms(1) by (simp add: resizeTo_def)
    qed
  qed
qed

lemma resizeCopyCurrent_resizeTo:
  assumes "resizeCopyCurrent ids (resizingTask s) (tasks s)"
  shows "resizeCopyCurrent ids (resizingTask s) (tasks (resizeTo day s))"
proof (cases "resizingTask s")
  case None
  then show ?thesis by simp
next
  case (Some r)
  have cur: "\<forall>u \<in> set (tasks s). task_id u = task_id (r_task r) \<longrightarrow>
      (if r_mode r = ResizeRight then startDate u = startDate (r_task r)
       else endDate u = endDate (r_task r))"
    and issued: "task_id (r_task r) \<in> ids"
    using assms Some by (simp_all add: resizeCopyCurrent_def)
  show ?thesis
    using Some cur issued
    by (cases "r_mode r")
      (auto simp: resizeCopyCurrent_def resizeTo_def onTaskUpdate_def updateTask_def
        spread_startDate spread_endDate)
qed

lemma copiesOrdered_resizeTo: "copiesOrdered (resizeTo day s) = copiesOrdered s"
  by (simp add: resizeTo_def onTaskUpdate_def copiesOrdered_def
      split: option.splits ResizeMode.splits)

lemma gestureInv_resizeTo:
  "gestureInv ids s \<Longrightarrow> gestureInv ids (resizeTo day s)"
  by (simp add: gestureInv_def tasksOrdered_resizeTo resizeCopyCurrent_resizeTo
      copiesOrdered_resizeTo)

lemma gestureInv_handleMouseEnter:
  "gestureInv ids s \<Longrightarrow> gestureInv ids (handleMouseEnter day s)"
  by (simp add: handleMouseEnter_def gestureInv_resizeTo gestureInv_selectTo)

lemma commitSelection_cases:
  "commitSelection s = s
   \<or> (\<exists>sd ed. sel_startDate (dragSelection s) = Some sd \<and> sel_endDate (dragSelection s) = Some ed
        \<and> commitSelection s = handleDragSelection sd ed s)"
  by (auto simp: commitSelection_def split: option.splits)

lemma tasks_handleDragSelection [simp]:
  "tasks (handleDragSelection sd ed s) = tasks s"
  "draggedTask (handleDragSelection sd ed s) = draggedTask s"
  "hoveredDay (handleDragSelection sd ed s) = hoveredDay s"
  "dragOffset (handleDragSelection sd ed s) = dragOffset s"
  by (simp_all add: handleDragSelection_def)

lemma copiesOrdered_handleDragSelection:
  "copiesOrdered s \<Longrightarrow> sd \<le> ed \<Longrightarrow> copiesOrdered (handleDragSelection sd ed s)"
  by (simp add: copiesOrdered_def handleDragSelection_def)

lemma commitSelection_keeps:
  assumes "copiesOrdered s"
  shows "copiesOrdered (commitSelection s)" and "tasks (commitSelection s) = tasks s"
    and "draggedTask (commitSelection s) = draggedTask s"
proof -
  consider "commitSelection s = s"
    | sd ed where "sel_startDate (dragSelection s) = Some sd"
        "sel_endDate (dragSelection s) = Some ed"
        "commitSelection s = handleDragSelection sd ed s"
    using commitSelection_cases [of s] by blast
  then have "copiesOrdered (commitSelection s) \<and> tasks (commitSelection s) = tasks s
      \<and> draggedTask (commitSelection s) = draggedTask s"
  proof cases
    case 1
    then show ?thesis using assms by simp
  next
    case 2
    have "sd \<le> ed" using assms 2(1,2) by (simp add: copiesOrdered_def)
    then show ?thesis
      using assms 2(3) by (simp add: copiesOrdered_handleDragSelection)
  qed
  then show "copiesOrdered (commitSelection s)" and "tasks (commitSelection s) = tasks s"
    and "draggedTask (commitSelection s) = draggedTask s"
    by simp_all
qed

lemma dropOnHovered_keeps:
  assumes "tasksOrdered ids (tasks s)" and "copiesOrdered s"
  shows "tasksOrdered ids (tasks (dropOnHovered s))"
    and "selectedTask (dropOnHovered s) = selectedTask s"
    and "dragSelection (dropOnHovered s) = dragSelection s"
proof -
  have ordered: "tasksOrdered ids (tasks (handleTaskDrop day s))" for day
  proof (cases "draggedTask s")
    case None
    then show ?thesis using assms(1) by (simp add: handleTaskDrop_def)
  next
    case (Some dragged)
    have "startDate dragged \<le> endDate dragged"
      using assms(2) Some by (simp add: copiesOrdered_def)
    then have "addDays day (- dragOffset s)
        \<le> addDays (addDays day (- dragOffset s))
             (differenceInDays (endDate dragged) (startDate dragged))"
      by (simp add: addDays_def differenceInDays_def)
    then show ?thesis
      using Some assms(1)
      by (simp add: handleTaskDrop_def onTaskUpdate_def Let_def tasksOrdered_update_dates)
  qed
  show "tasksOrdered ids (tasks (dropOnHovered s))"
    using ordered assms(1) by (simp add: dropOnHovered_def split: option.splits)
  show "selectedTask (dropOnHovered s) = selectedTask s"
    and "dragSelection (dropOnHovered s) = dragSelection s"
    by (simp_all add: dropOnHovered_def handleTaskDrop_def onTaskUpdate_def Let_def
        split: option.splits)
qed

lemma gestureInv_handleMouseUp:
  assumes "gestureInv ids s"
  shows "gestureInv ids (handleMouseUp s)"
proof -
  have ts: "tasksOrdered ids (tasks s)" and cs: "copiesOrdered s"
    using assms by (simp_all add: gestureInv_def)
  have c1: "copiesOrdered (commitSelection s)"
    and t1: "tasksOrdered ids (tasks (commitSelection s))"
    using commitSelection_keeps [OF cs] ts by simp_all
  have "tasksOrdered ids (tasks (dropOnHovered (commitSelection s)))"
    and "selectedTask (dropOnHovered (commitSelection s)) = selectedTask (commitSelection s)"
    and "dragSelection (dropOnHovered (commitSelection s)) = dragSelection (commitSelection s)"
    by (rule dropOnHovered_keeps [OF t1 c1])+
  then show ?thesis
    using c1 by (simp add: handleMouseUp_def gestureInv_def copiesOrdered_def)
qed

lemma gestureInv_handleMouseLeave:
  "gestureInv ids s \<Longrightarrow> gestureInv ids (handleMouseLeave s)"
  by (simp add: handleMouseLeave_def gestureInv_def copiesOrdered_def)

lemma gestureInv_handleTaskResizeStart:
  assumes "gestureInv ids s" and "task \<in> set (tasks s)"
  shows "gestureInv ids (handleTaskResizeStart task mode s)"
proof -
  have ts: "tasksOrdered ids (tasks s)"
    using assms(1) by (simp add: gestureInv_def)
  have same: "u = task" if "u \<in> set (tasks s)" and "task_id u = task_id task" for u
    using that assms(2) ts by (meson distinct_map inj_onD tasksOrdered_def)
  have issued: "task_id task \<in> ids"
    using ts assms(2) by (simp add: tasksOrdered_def)
  have "resizeCopyCurrent ids
      (Some \<lparr>r_task = task, r_mode = mode,
             originalDate = (if mode = ResizeRight then endDate task else startDate task)\<rparr>)
      (tasks s)"
    unfolding resizeCopyCurrent_def using same issued by auto
  then show ?thesis
    using assms(1) by (simp add: handleTaskResizeStart_def gestureInv_def copiesOrdered_def)
qed

lemma gestureInv_handleTaskDragStart:
  assumes "gestureInv ids s" and "task \<in> set (tasks s)"
  shows "gestureInv ids (handleTaskDragStart task dayClicked s)"
proof -
  have "startDate task \<le> endDate task"
    using assms by (simp add: gestureInv_def tasksOrdered_def)
  then show ?thesis
    using assms(1) by (simp add: handleTaskDragStart_def gestureInv_def copiesOrdered_def)
qed

lemma gestureInv_stripHandleMouseDown:
  assumes "gestureInv ids s" and "task \<in> set (tasks s)"
  shows "gestureInv ids (stripHandleMouseDown task weekStart weekDays clickX width s)"
  using assms
  by (simp add: stripHandleMouseDown_def Let_def gestureInv_handleTaskResizeStart
      gestureInv_handleTaskDragStart split: option.splits)

lemma gestureInv_handleTaskEdit:
  assumes "gestureInv ids s" and "task \<in> set (tasks s)"
  shows "gestureInv ids (handleTaskEdit task s)"
proof -
  have "startDate task \<le> endDate task"
    using assms by (simp add: gestureInv_def tasksOrdered_def)
  then show ?thesis
    using assms(1) by (simp add: handleTaskEdit_def gestureInv_def copiesOrdered_def)
qed

lemma gestureInv_handleModalClose:
  "gestureInv ids s \<Longrightarrow> gestureInv ids (handleModalClose s)"
  by (simp add: handleModalClose_def gestureInv_def copiesOrdered_def noSelection_def)

lemma resizeCopyCurrent_subset:
  assumes "resizeCopyCurrent ids rz ts" and "set ts' \<subseteq> set ts" and "ids \<subseteq> ids'"
  shows "resizeCopyCurrent ids' rz ts'"
  unfolding resizeCopyCurrent_def
proof (intro allI impI conjI ballI)
  fix r assume r: "rz = Some r"
  then show "task_id (r_task r) \<in> ids'"
    using assms(1,3) unfolding resizeCopyCurrent_def by blast
  fix u assume "u \<in> set ts'" and "task_id u = task_id (r_task r)"
  then show "if r_mode r = ResizeRight then startDate u = startDate (r_task r)
        else endDate u = endDate (r_task r)"
    using assms(1,2) r unfolding resizeCopyCurrent_def by blast
qed

lemma tasksOrdered_deleteTask:
  assumes "tasksOrdered ids ts"
  shows "tasksOrdered ids (deleteTask taskId ts)"
proof -
  have "distinct (map task_id (deleteTask taskId ts))"
    using assms by (simp add: tasksOrdered_def deleteTask_def distinct_map_filter)
  moreover have "\<forall>t \<in> set (deleteTask taskId ts). startDate t \<le> endDate t \<and> task_id t \<in> ids"
    using assms by (simp add: tasksOrdered_def deleteTask_def)
  ultimately show ?thesis by (simp add: tasksOrdered_def)
qed

lemma gestureInv_onTaskDelete:
  assumes "gestureInv ids s"
  shows "gestureInv ids (onTaskDelete taskId s)"
proof -
  have "resizeCopyCurrent ids (resizingTask s) (deleteTask taskId (tasks s))"
    by (rule resizeCopyCurrent_subset [of ids _ "tasks s"])
      (use assms in \<open>simp_all add: gestureInv_def deleteTask_def\<close>)
  then show ?thesis
    using assms
    by (simp add: gestureInv_def onTaskDelete_def copiesOrdered_def tasksOrdered_deleteTask)
qed

lemma gestureInv_issue:
  assumes "gestureInv ids s"
  shows "gestureInv (insert generatedId ids) s"
proof -
  have "resizeCopyCurrent (insert generatedId ids) (resizingTask s) (tasks s)"
    by (rule resizeCopyCurrent_subset [of ids _ "tasks s"])
      (use assms in \<open>auto simp: gestureInv_def\<close>)
  moreover have "tasksOrdered (insert generatedId ids) (tasks s)"
    by (rule tasksOrdered_mono [of ids]) (use assms in \<open>auto simp: gestureInv_def\<close>)
  ultimately show ?thesis
    using assms by (simp add: gestureInv_def)
qed

lemma gestureInv_edit:
  assumes "gestureInv ids s"
  shows "gestureInv ids
     (onTaskUpdate taskId
        (noUpdates\<lparr>u_name := Some nm, u_category := Some cat, u_assignedUser := Some user,
           u_priority := Some prio, u_color := Some col\<rparr>) s)"
  using assms
  by (simp add: gestureInv_def onTaskUpdate_def copiesOrdered_def noUpdates_def
      tasksOrdered_update_other resizeCopyCurrent_update_other)

lemma gestureInv_create:
  assumes "gestureInv ids s" and "generatedId \<notin> ids" and "sd \<le> ed"
  shows "gestureInv (insert generatedId ids)
     (s\<lparr>tasks := createTask generatedId nm cat sd ed user prio col (tasks s)\<rparr>)"
proof -
  let ?new = "\<lparr>task_id = generatedId, name = nm, category = cat, startDate = sd, endDate = ed,
               assignedUser = user, priority = prio, color = col\<rparr>"
  have ts: "tasksOrdered ids (tasks s)" and cs: "copiesOrdered s"
    and rs: "resizeCopyCurrent ids (resizingTask s) (tasks s)"
    using assms(1) by (simp_all add: gestureInv_def)
  have fresh: "generatedId \<notin> task_id ` set (tasks s)"
    using ts assms(2) by (auto simp: tasksOrdered_def)
  have "tasksOrdered (insert generatedId ids) (tasks s @ [?new])"
    using ts assms(3) fresh by (simp add: tasksOrdered_def)
  moreover have "resizeCopyCurrent (insert generatedId ids) (resizingTask s) (tasks s @ [?new])"
    unfolding resizeCopyCurrent_def
  proof (intro allI impI conjI ballI)
    fix r assume r: "resizingTask s = Some r"
    then have issued: "task_id (r_task r) \<in> ids"
      using rs by (simp add: resizeCopyCurrent_def)
    then show "task_id (r_task r) \<in> insert generatedId ids" by simp
    fix u assume u: "u \<in> set (tasks s @ [?new])" and same: "task_id u = task_id (r_task r)"
    have "u \<noteq> ?new" using same issued assms(2) by auto
    then have "u \<in> set (tasks s)" using u by simp
    then show "if r_mode r = ResizeRight then startDate u = startDate (r_task r)
        else endDate u = endDate (r_task r)"
      using rs r same unfolding resizeCopyCurrent_def by blast
  qed
  ultimately show ?thesis
    using cs by (simp add: gestureInv_def copiesOrdered_def createTask_def)
qed

lemma gestureInv_handleModalSave:
  assumes "gestureInv ids s" and "generatedId \<notin> ids"
  shows "gestureInv (insert generatedId ids)
     (handleModalSave generatedId nm cat user prio col s)"
proof (cases "selectedTask s")
  case None
  then show ?thesis
    using assms(1)
    by (simp add: handleModalSave_def gestureInv_handleModalClose gestureInv_issue)
next
  case (Some sel)
  show ?thesis
  proof (cases "task_id sel = ''''")
    case True
    have "startDate sel \<le> endDate sel"
      using assms(1) Some by (simp add: gestureInv_def copiesOrdered_def)
    then show ?thesis
      using Some True assms
      by (simp add: handleModalSave_def gestureInv_handleModalClose gestureInv_create)
  next
    case False
    then show ?thesis
      using Some assms(1)
      by (simp add: handleModalSave_def gestureInv_handleModalClose gestureInv_issue
          gestureInv_edit)
  qed
qed

lemma reachable_gestureInv: "reachable ids s \<Longrightarrow> gestureInv ids s"
proof (induction rule: reachable.induct)
  case initial
  show ?case by (rule gestureInv_initial)
next
  case (cellMouseDown ids s day)
  then show ?case by (simp add: gestureInv_handleMouseDown)
next
  case (cellMouseEnter ids s day)
  then show ?case by (simp add: gestureInv_handleMouseEnter)
next
  case (mouseUp ids s)
  then show ?case by (simp add: gestureInv_handleMouseUp)
next
  case (mouseLeave ids s)
  then show ?case by (simp add: gestureInv_handleMouseLeave)
next
  case (stripMouseDown ids s task width weekStart weekDays clickX)
  then show ?case by (simp add: gestureInv_stripHandleMouseDown)
next
  case (stripClick ids s task)
  then show ?case by (simp add: gestureInv_handleTaskEdit)
next
  case (modalSave ids s generatedId nm cat user prio col)
  then show ?case by (simp add: gestureInv_handleModalSave)
next
  case (modalClose ids s)
  then show ?case by (simp add: gestureInv_handleModalClose)
next
  case (modalDelete ids s taskId)
  then show ?case by (simp add: gestureInv_handleModalClose gestureInv_onTaskDelete)
qed

text \<open>
  Claim C1. In every state the program reaches from its initial state, by any sequence of
  pointer and modal events (which covers creation from a committed selection, drag-move,
  resize, edit and delete), every task of the collection has \<open>startDate \<le> endDate\<close>.
\<close>

theorem dates_ordered_when_reachable:
  assumes "reachable ids s" and "t \<in> set (tasks s)"
  shows "startDate t \<le> endDate t"
  using reachable_gestureInv [OF assms(1)] assms(2)
  by (simp add: gestureInv_def tasksOrdered_def)

text \<open>
  A reachable state: the range 12 to 15 June is selected and committed, and the modal
  saves it as a task.
\<close>

theorem dates_ordered_when_reachable_witness:
  "reachable {''t1''} createdExample
   \<and> tasks createdExample = [exampleTask ''t1'' (june 12) (june 15)]
   \<and> startDate (exampleTask ''t1'' (june 12) (june 15))
       \<le> endDate (exampleTask ''t1'' (june 12) (june 15))"
proof -
  have "reachable {} (handleMouseUp (handleMouseEnter (june 15)
          (handleMouseDown (june 12) initialState)))"
    by (intro reachable.mouseUp reachable.cellMouseEnter reachable.cellMouseDown
        reachable.initial)
  then have reach: "reachable {''t1''} createdExample"
    unfolding createdExample_def by (rule reachable.modalSave) simp
  have ts: "tasks createdExample = [exampleTask ''t1'' (june 12) (june 15)]"
    by (simp add: createdExample_def handleModalSave_def handleModalClose_def
        handleMouseUp_def commitSelection_def dropOnHovered_def handleDragSelection_def
        handleMouseEnter_def selectTo_def resizeTo_def handleMouseDown_def nonNull_def
        initialState_def noSelection_def createTask_def exampleTask_def june_eq)
  have "exampleTask ''t1'' (june 12) (june 15) \<in> set (tasks createdExample)"
    by (simp add: ts)
  from dates_ordered_when_reachable [OF reach this] reach ts show ?thesis
    by simp
qed

section \<open>Persistence round trip\<close>







lemma usersNamed_hoveredDay [simp]: "usersNamed (s\<lparr>hoveredDay := h\<rparr>) = usersNamed s"
  by (simp add: usersNamed_def)







lemma usersNamed_gesture_fields [simp]:
  "usersNamed (s\<lparr>isDragging := a, draggedTask := b, hoveredDay := c, resizingTask := d\<rparr>)
     = usersNamed s"
  by (simp add: usersNamed_def)








section \<open>The calendar of the month\<close>

lemma month_cases:
  assumes "0 \<le> m" and "m \<le> 11"
  shows "m = 0 \<or> m = 1 \<or> m = 2 \<or> m = 3 \<or> m = 4 \<or> m = 5 \<or> m = 6 \<or> m = 7 \<or> m = 8 \<or> m = 9
    \<or> m = 10 \<or> m = (11::int)"
  using assms by arith

lemma MonthFromTime_range: "0 \<le> MonthFromTime t \<and> MonthFromTime t \<le> 11"
  by (simp add: MonthFromTime_def Let_def)

lemma DayWithinYear_range: "0 \<le> DayWithinYear t \<and> DayWithinYear t < 365 + InLeapYear t"
  using YearFromTime_spec [of t] DayFromYear_Suc [of "YearFromTime t"]
    DaysInYear_cases [of "YearFromTime t"]
  by (auto simp: DayWithinYear_def InLeapYear_def)

lemma MonthFromTime_bounds:
  "daysBeforeMonth (YearFromTime t) (MonthFromTime t) \<le> DayWithinYear t
   \<and> DayWithinYear t < monthLimit (YearFromTime t) (MonthFromTime t)"
proof (cases "DaysInYear (YearFromTime t) = 366")
  case True
  then show ?thesis
    using DayWithinYear_range [of t]
    by (simp add: MonthFromTime_def daysBeforeMonth_def monthLimit_def InLeapYear_def Let_def)
next
  case False
  then have "DaysInYear (YearFromTime t) = 365"
    using DaysInYear_cases [of "YearFromTime t"] by simp
  then show ?thesis
    using DayWithinYear_range [of t]
    by (simp add: MonthFromTime_def daysBeforeMonth_def monthLimit_def InLeapYear_def Let_def)
qed

lemma month_of_day:
  assumes "0 \<le> m" and "m \<le> 11"
    and "daysBeforeMonth (YearFromTime t) m \<le> DayWithinYear t"
    and "DayWithinYear t < monthLimit (YearFromTime t) m"
  shows "MonthFromTime t = m"
proof (cases "DaysInYear (YearFromTime t) = 366")
  case True
  show ?thesis
    using month_cases [OF assms(1,2)] assms(3,4) True
    by (elim disjE)
      (simp_all add: MonthFromTime_def daysBeforeMonth_def monthLimit_def InLeapYear_def Let_def)
next
  case False
  then have "DaysInYear (YearFromTime t) = 365"
    using DaysInYear_cases [of "YearFromTime t"] by simp
  then show ?thesis
    using month_cases [OF assms(1,2)] assms(3,4)
    by (elim disjE)
      (simp_all add: MonthFromTime_def daysBeforeMonth_def monthLimit_def InLeapYear_def Let_def)
qed

lemma DateFromTime_eq:
  "DateFromTime t = DayWithinYear t - daysBeforeMonth (YearFromTime t) (MonthFromTime t) + 1"
  using month_cases [of "MonthFromTime t"] MonthFromTime_range [of t]
  by (auto simp: DateFromTime_def daysBeforeMonth_def InLeapYear_def Let_def)

lemma daysBeforeMonth_range:
  assumes "0 \<le> m" and "m \<le> 11"
  shows "0 \<le> daysBeforeMonth y m" and "daysBeforeMonth y m + 28 \<le> monthLimit y m"
    and "monthLimit y m \<le> daysBeforeMonth y m + 31" and "monthLimit y m \<le> DaysInYear y"
  using month_cases [OF assms] DaysInYear_cases [of y]
  by (auto simp: daysBeforeMonth_def monthLimit_def)

text \<open>The first and the last day of the anchor's month, from the start of its year.\<close>

lemma startOfMonth_eq:
  "startOfMonth a
     = DayFromYear (YearFromTime a) + daysBeforeMonth (YearFromTime a) (MonthFromTime a)"
  using MonthFromTime_range [of a]
  by (simp add: startOfMonth_def MakeDay_def Let_def div_pos_pos_trivial mod_pos_pos_trivial)

lemma endOfMonth_eq:
  "endOfMonth a = DayFromYear (YearFromTime a) + monthLimit (YearFromTime a) (MonthFromTime a) - 1"
proof (cases "MonthFromTime a = 11")
  case True
  then show ?thesis
    using DayFromYear_Suc [of "YearFromTime a"]
    by (simp add: endOfMonth_def MakeDay_def Let_def monthLimit_def daysBeforeMonth_def)
next
  case False
  then have "0 \<le> MonthFromTime a + 1" "MonthFromTime a + 1 < 12"
    using MonthFromTime_range [of a] by simp_all
  then have "(MonthFromTime a + 1) div 12 = 0" "(MonthFromTime a + 1) mod 12 = MonthFromTime a + 1"
    by (simp_all add: div_pos_pos_trivial mod_pos_pos_trivial)
  then show ?thesis
    using False by (simp add: endOfMonth_def MakeDay_def Let_def monthLimit_def)
qed

lemma in_month_iff:
  "YearFromTime z = YearFromTime a \<and> MonthFromTime z = MonthFromTime a
     \<longleftrightarrow> startOfMonth a \<le> z \<and> z \<le> endOfMonth a"
proof
  assume same: "YearFromTime z = YearFromTime a \<and> MonthFromTime z = MonthFromTime a"
  then show "startOfMonth a \<le> z \<and> z \<le> endOfMonth a"
    using MonthFromTime_bounds [of z]
    by (simp add: startOfMonth_eq endOfMonth_eq DayWithinYear_def)
next
  assume inside: "startOfMonth a \<le> z \<and> z \<le> endOfMonth a"
  let ?y = "YearFromTime a" and ?m = "MonthFromTime a"
  have m: "0 \<le> ?m" "?m \<le> 11"
    using MonthFromTime_range [of a] by simp_all
  have "DayFromYear ?y \<le> z"
    using inside daysBeforeMonth_range(1) [OF m, of ?y] by (simp add: startOfMonth_eq)
  moreover have "z < DayFromYear (?y + 1)"
    using inside daysBeforeMonth_range(4) [OF m, of ?y] DayFromYear_Suc [of ?y]
    by (simp add: endOfMonth_eq)
  ultimately have year: "YearFromTime z = ?y"
    by (rule YearFromTime_unique)
  have "MonthFromTime z = ?m"
    using inside by (intro month_of_day m) (simp_all add: year DayWithinYear_def
        startOfMonth_eq endOfMonth_eq)
  with year show "YearFromTime z = YearFromTime a \<and> MonthFromTime z = MonthFromTime a"
    by simp
qed

lemma anchor_in_month: "startOfMonth a \<le> a \<and> a \<le> endOfMonth a"
  using in_month_iff [of a a] by simp

lemma DateFromTime_startOfMonth: "DateFromTime (startOfMonth a) = 1"
proof -
  have "startOfMonth a \<le> startOfMonth a \<and> startOfMonth a \<le> endOfMonth a"
    using anchor_in_month [of a] by simp
  then have "YearFromTime (startOfMonth a) = YearFromTime a"
    and "MonthFromTime (startOfMonth a) = MonthFromTime a"
    using in_month_iff [of "startOfMonth a" a] by simp_all
  then show ?thesis
    by (simp add: DateFromTime_eq DayWithinYear_def) (simp add: startOfMonth_eq)
qed

lemma month_length:
  "27 \<le> endOfMonth a - startOfMonth a \<and> endOfMonth a - startOfMonth a \<le> 30"
  using daysBeforeMonth_range(2,3) [of "MonthFromTime a" "YearFromTime a"]
    MonthFromTime_range [of a]
  by (simp add: startOfMonth_eq endOfMonth_eq)

section \<open>The calendar grid\<close>

lemma getDay_range: "0 \<le> getDay d \<and> getDay d < 7"
  by (simp add: getDay_def)

lemma getDay_startOfWeek: "getDay (startOfWeek d) = 0"
  unfolding getDay_def startOfWeek_def addDays_def by presburger

lemma getDay_endOfWeek: "getDay (endOfWeek d) = 6"
  unfolding getDay_def endOfWeek_def addDays_def by presburger

lemma monthStart_le_monthEnd: "monthStart a \<le> monthEnd a"
  using anchor_in_month [of a] by (simp add: monthStart_def monthEnd_def)

text \<open>
  The three days before the first of the anchor's month lie in the month of the day
  before the first, which is not the anchor's month.
\<close>

lemma before_monthStart:
  assumes "monthStart a - 3 \<le> z" and "z < monthStart a"
  shows "YearFromTime z = YearFromTime (monthStart a - 1)
    \<and> MonthFromTime z = MonthFromTime (monthStart a - 1)
    \<and> \<not> (YearFromTime z = YearFromTime a \<and> MonthFromTime z = MonthFromTime a)"
proof -
  let ?p = "startOfMonth a - 1"
  have first: "YearFromTime (startOfMonth a) = YearFromTime a
      \<and> MonthFromTime (startOfMonth a) = MonthFromTime a"
    using in_month_iff [of "startOfMonth a" a] anchor_in_month [of a] by simp
  have other: "\<not> (YearFromTime ?p = YearFromTime a \<and> MonthFromTime ?p = MonthFromTime a)"
    using in_month_iff [of ?p a] by simp
  have "\<not> startOfMonth a \<le> endOfMonth ?p"
  proof
    assume "startOfMonth a \<le> endOfMonth ?p"
    then have "startOfMonth ?p \<le> startOfMonth a \<and> startOfMonth a \<le> endOfMonth ?p"
      using anchor_in_month [of ?p] by simp
    then have "YearFromTime (startOfMonth a) = YearFromTime ?p
        \<and> MonthFromTime (startOfMonth a) = MonthFromTime ?p"
      using in_month_iff [of "startOfMonth a" ?p] by simp
    with first other show False by simp
  qed
  then have last: "endOfMonth ?p = ?p"
    using anchor_in_month [of ?p] by simp
  then have "startOfMonth ?p \<le> z \<and> z \<le> endOfMonth ?p"
    using month_length [of ?p] assms by (simp add: monthStart_def)
  then have "YearFromTime z = YearFromTime ?p \<and> MonthFromTime z = MonthFromTime ?p"
    using in_month_iff [of z ?p] by simp
  moreover have "\<not> (YearFromTime z = YearFromTime a \<and> MonthFromTime z = MonthFromTime a)"
    using in_month_iff [of z a] assms(2) by (simp add: monthStart_def)
  ultimately show ?thesis by (simp add: monthStart_def)
qed

lemma calendar_bounds:
  "calendarStart a \<le> monthStart a" "monthStart a - calendarStart a = getDay (monthStart a)"
  "monthEnd a \<le> calendarEnd a" "calendarEnd a - monthEnd a = 6 - getDay (monthEnd a)"
  "calendarStart a \<le> calendarEnd a"
  using getDay_range [of "monthStart a"] getDay_range [of "monthEnd a"]
    monthStart_le_monthEnd [of a]
  by (simp_all add: calendarStart_def calendarEnd_def startOfWeek_def endOfWeek_def addDays_def)

lemma whole_weeks:
  assumes "getDay cs = 0" and "getDay ce = 6" and "cs \<le> ce"
  shows "7 dvd nat (ce - cs + 1)"
proof -
  have "(ce - cs + 1) mod 7 = 0"
    using assms(1,2) unfolding getDay_def by presburger
  then have "7 dvd (ce - cs + 1)" by presburger
  then show ?thesis
    using assms(3) by (simp add: int_dvd_int_iff [symmetric] del: int_dvd_int_iff)
qed

declare weeksFrom.simps [simp del]

lemma concat_weeksFrom: "concat (weeksFrom i ds) = drop i ds"
proof (induction i ds rule: weeksFrom.induct)
  case (1 i ds)
  show ?case
  proof (cases "i < length ds")
    case True
    have "concat (weeksFrom i ds) = take 7 (drop i ds) @ drop (i + 7) ds"
      using True "1.IH" by (subst weeksFrom.simps) simp
    moreover have "drop (i + 7) ds = drop 7 (drop i ds)"
      by (simp add: add.commute)
    ultimately have "concat (weeksFrom i ds) = take 7 (drop i ds) @ drop 7 (drop i ds)"
      by (simp only:)
    then show ?thesis by (simp only: append_take_drop_id)
  next
    case False
    then show ?thesis by (subst weeksFrom.simps) simp
  qed
qed

lemma length_weeksFrom:
  "7 dvd (length ds - i) \<Longrightarrow> length (weeksFrom i ds) * 7 = length ds - i"
proof (induction i ds rule: weeksFrom.induct)
  case (1 i ds)
  show ?case
  proof (cases "i < length ds")
    case True
    with "1.prems" have more: "7 \<le> length ds - i"
      by presburger
    then have "7 dvd (length ds - (i + 7))"
      using "1.prems" by presburger
    then have "length (weeksFrom (i + 7) ds) * 7 = length ds - (i + 7)"
      using True "1.IH" by simp
    then show ?thesis
      using True more by (subst weeksFrom.simps) simp
  next
    case False
    then show ?thesis by (subst weeksFrom.simps) simp
  qed
qed

lemma nth_weeksFrom:
  "k < length (weeksFrom i ds) \<Longrightarrow> weeksFrom i ds ! k = take 7 (drop (i + 7 * k) ds)"
proof (induction i ds arbitrary: k rule: weeksFrom.induct)
  case (1 i ds)
  show ?case
  proof (cases "i < length ds")
    case True
    then have unfold: "weeksFrom i ds = take 7 (drop i ds) # weeksFrom (i + 7) ds"
      by (subst weeksFrom.simps) simp
    show ?thesis
    proof (cases k)
      case 0
      then show ?thesis by (simp add: unfold)
    next
      case (Suc j)
      then have "j < length (weeksFrom (i + 7) ds)"
        using "1.prems" by (simp add: unfold)
      then have "weeksFrom (i + 7) ds ! j = take 7 (drop (i + 7 + 7 * j) ds)"
        using True "1.IH" by simp
      then show ?thesis
        by (simp add: unfold Suc add.assoc)
    qed
  next
    case False
    then have "weeksFrom i ds = []" by (subst weeksFrom.simps) simp
    then show ?thesis using "1.prems" by simp
  qed
qed

lemma week_of_upto:
  assumes "7 * k + 7 \<le> length [cs..ce]"
  shows "take 7 (drop (7 * k) [cs..ce]) = [cs + 7 * int k .. cs + 7 * int k + 6]"
proof (rule nth_equalityI)
  show "length (take 7 (drop (7 * k) [cs..ce])) = length [cs + 7 * int k .. cs + 7 * int k + 6]"
    using assms by simp
next
  fix j assume "j < length (take 7 (drop (7 * k) [cs..ce]))"
  then have j: "j < 7" by simp
  then have "cs + int (7 * k + j) \<le> ce"
    using assms by simp
  then have "[cs..ce] ! (7 * k + j) = cs + int (7 * k + j)"
    by (rule nth_upto)
  moreover have "[cs + 7 * int k .. cs + 7 * int k + 6] ! j = cs + 7 * int k + int j"
    using j by (intro nth_upto) simp
  ultimately show "take 7 (drop (7 * k) [cs..ce]) ! j
      = [cs + 7 * int k .. cs + 7 * int k + 6] ! j"
    using j assms by simp
qed

lemma length_days: "length (days a) = nat (calendarEnd a - calendarStart a + 1)"
  by (simp add: days_def eachDayOfInterval_def)

lemma days_whole_weeks: "7 dvd length (days a)"
  unfolding length_days
  by (intro whole_weeks calendar_bounds)
    (simp_all add: calendarStart_def calendarEnd_def getDay_startOfWeek getDay_endOfWeek)

lemma nth_weeks:
  assumes "k < length (weeks a)"
  shows "weeks a ! k = [calendarStart a + 7 * int k .. calendarStart a + 7 * int k + 6]"
proof -
  have "length (weeks a) * 7 = length (days a)"
    using length_weeksFrom [of "days a" 0] days_whole_weeks [of a] by (simp add: weeks_def)
  then have enough: "7 * k + 7 \<le> length [calendarStart a .. calendarEnd a]"
    using assms by (simp add: days_def eachDayOfInterval_def)
  have "weeks a ! k = take 7 (drop (7 * k) (days a))"
    using nth_weeksFrom [of k 0 "days a"] assms by (simp add: weeks_def)
  then show ?thesis
    using week_of_upto [OF enough] by (simp add: days_def eachDayOfInterval_def)
qed

text \<open>
  Claim C7. The first and the last day of the anchor's month bound exactly the days that
  have the anchor's year and month, the anchor among them, and the first has the date 1.
  The grid starts on a Sunday, at most six days before that first day, and ends on a
  Saturday, at most six days after that last day; it holds every day between the two, in
  order; its length is a multiple of 7; and the week rows are its consecutive groups of
  seven days, row \<open>k\<close> running from day \<open>7 k\<close> of the grid to day \<open>7 k + 6\<close>. When the
  first of the month is a Wednesday, the grid starts with the three days before it, which
  lie in the month before, and ends on the Saturday that closes the month's last week.
\<close>

theorem calendar_grid_whole_weeks:
  "getDay (calendarStart a) = 0
   \<and> calendarStart a \<le> monthStart a \<and> monthStart a - calendarStart a = getDay (monthStart a)
   \<and> getDay (calendarEnd a) = 6
   \<and> monthEnd a \<le> calendarEnd a \<and> calendarEnd a - monthEnd a = 6 - getDay (monthEnd a)
   \<and> length (days a) = nat (calendarEnd a - calendarStart a + 1)
   \<and> (\<forall>i < length (days a). days a ! i = calendarStart a + int i)
   \<and> 7 dvd length (days a)
   \<and> concat (weeks a) = days a
   \<and> length (weeks a) * 7 = length (days a)
   \<and> (\<forall>k < length (weeks a).
         weeks a ! k = [calendarStart a + 7 * int k .. calendarStart a + 7 * int k + 6])
   \<and> (getDay (monthStart a) = 3 \<longrightarrow>
         take 3 (days a) = [monthStart a - 3, monthStart a - 2, monthStart a - 1]
         \<and> days a ! 3 = monthStart a \<and> last (days a) = calendarEnd a
         \<and> (\<forall>z \<in> set (take 3 (days a)).
               YearFromTime z = YearFromTime (monthStart a - 1)
               \<and> MonthFromTime z = MonthFromTime (monthStart a - 1)
               \<and> \<not> (YearFromTime z = YearFromTime a \<and> MonthFromTime z = MonthFromTime a)))
   \<and> monthStart a \<le> a \<and> a \<le> monthEnd a
   \<and> DateFromTime (monthStart a) = 1
   \<and> (\<forall>z. YearFromTime z = YearFromTime a \<and> MonthFromTime z = MonthFromTime a
             \<longleftrightarrow> monthStart a \<le> z \<and> z \<le> monthEnd a)"
proof -
  have sun: "getDay (calendarStart a) = 0" and sat: "getDay (calendarEnd a) = 6"
    by (simp_all add: calendarStart_def calendarEnd_def getDay_startOfWeek getDay_endOfWeek)
  have nth: "\<forall>i < length (days a). days a ! i = calendarStart a + int i"
    by (simp add: days_def eachDayOfInterval_def)
  have cat: "concat (weeks a) = days a"
    by (simp add: weeks_def concat_weeksFrom)
  have len: "length (weeks a) * 7 = length (days a)"
    using length_weeksFrom [of "days a" 0] days_whole_weeks [of a] by (simp add: weeks_def)
  have rows: "\<forall>k < length (weeks a).
      weeks a ! k = [calendarStart a + 7 * int k .. calendarStart a + 7 * int k + 6]"
    by (simp add: nth_weeks)
  have wed: "take 3 (days a) = [monthStart a - 3, monthStart a - 2, monthStart a - 1]
      \<and> days a ! 3 = monthStart a \<and> last (days a) = calendarEnd a
      \<and> (\<forall>z \<in> set (take 3 (days a)).
               YearFromTime z = YearFromTime (monthStart a - 1)
               \<and> MonthFromTime z = MonthFromTime (monthStart a - 1)
               \<and> \<not> (YearFromTime z = YearFromTime a \<and> MonthFromTime z = MonthFromTime a))"
    if "getDay (monthStart a) = 3"
  proof -
    have cs: "calendarStart a = monthStart a - 3"
      using that calendar_bounds(2) [of a] by simp
    have long: "monthStart a \<le> calendarEnd a"
      using monthStart_le_monthEnd [of a] calendar_bounds(3) [of a] by simp
    have "[monthStart a - 3 .. calendarEnd a]
        = (monthStart a - 3) # (monthStart a - 2) # (monthStart a - 1)
            # [monthStart a .. calendarEnd a]"
      using long by (simp add: upto_rec1)
    moreover have "last [monthStart a - 3 .. calendarEnd a] = calendarEnd a"
      using long by (simp add: last_conv_nth)
    ultimately have three: "take 3 (days a) = [monthStart a - 3, monthStart a - 2, monthStart a - 1]"
      and rest: "days a ! 3 = monthStart a \<and> last (days a) = calendarEnd a"
      using long by (simp_all add: days_def eachDayOfInterval_def cs upto_rec1)
    have "YearFromTime z = YearFromTime (monthStart a - 1)
        \<and> MonthFromTime z = MonthFromTime (monthStart a - 1)
        \<and> \<not> (YearFromTime z = YearFromTime a \<and> MonthFromTime z = MonthFromTime a)"
      if "z \<in> set (take 3 (days a))" for z
      using that unfolding three by (intro before_monthStart) auto
    then show ?thesis
      using three rest by blast
  qed
  have month: "monthStart a \<le> a \<and> a \<le> monthEnd a"
    and date: "DateFromTime (monthStart a) = 1"
    and exactly: "\<forall>z. YearFromTime z = YearFromTime a \<and> MonthFromTime z = MonthFromTime a
             \<longleftrightarrow> monthStart a \<le> z \<and> z \<le> monthEnd a"
    using anchor_in_month [of a] DateFromTime_startOfMonth [of a] in_month_iff [of _ a]
    by (simp_all add: monthStart_def monthEnd_def)
  show ?thesis
    using sun sat calendar_bounds(1,2,3,4) [of a] length_days [of a] nth
      days_whole_weeks [of a] cat len rows wed month date exactly
    by blast
qed

text \<open>
  Scenario A: May 2024 starts on a Wednesday. The grid of the anchor 15 May runs from
  Sunday 28 April to Saturday 1 June, in 35 days; its first three days are in April.
\<close>

theorem calendar_grid_whole_weeks_witness:
  "getDay (monthStart may2024) = 3
   \<and> monthStart may2024 = days_from_civil 2024 5 1
   \<and> monthEnd may2024 = days_from_civil 2024 5 31
   \<and> take 3 (days may2024)
       = [days_from_civil 2024 4 28, days_from_civil 2024 4 29, days_from_civil 2024 4 30]
   \<and> last (days may2024) = days_from_civil 2024 6 1
   \<and> length (days may2024) = 35
   \<and> MonthFromTime (days_from_civil 2024 4 28) = 3
   \<and> MonthFromTime may2024 = 4"
proof -
  have ms: "monthStart may2024 = 19844" and me: "monthEnd may2024 = 19874"
    and ce: "calendarEnd may2024 = 19875" and cs: "calendarStart may2024 = 19841"
    and months: "MonthFromTime 19843 = 3" "MonthFromTime may2024 = 4"
    by code_simp+
  have wd: "getDay (monthStart may2024) = 3"
    by (simp add: ms getDay_def)
  have civil: "days_from_civil 2024 4 28 = 19841" "days_from_civil 2024 4 29 = 19842"
    "days_from_civil 2024 4 30 = 19843" "days_from_civil 2024 5 1 = 19844"
    "days_from_civil 2024 5 31 = 19874" "days_from_civil 2024 6 1 = 19875"
    by (simp_all add: days_from_civil_def)
  from calendar_grid_whole_weeks [of may2024] wd months show ?thesis
    by (simp add: ms me ce cs civil)
qed

section \<open>Week projection\<close>

lemma week_days: "[ws..ws + 6] = [ws, ws + 1, ws + 2, ws + 3, ws + 4, ws + 5, ws + 6]"
  by (simp add: upto_rec1)

lemma findIndex_week:
  assumes "ws \<le> d" and "d \<le> ws + 6"
  shows "findIndex (\<lambda>day. isSameDay day d) [ws..ws + 6] = d - ws"
proof -
  have "d = ws \<or> d = ws + 1 \<or> d = ws + 2 \<or> d = ws + 3 \<or> d = ws + 4 \<or> d = ws + 5 \<or> d = ws + 6"
    using assms by arith
  then show ?thesis
    unfolding week_days by (elim disjE) (simp_all add: isSameDay_def)
qed

lemma week_intersects:
  "list_ex (\<lambda>day. day \<ge> s \<and> day \<le> e) [ws..ws + 6] \<longleftrightarrow> max s ws \<le> min e (ws + 6)"
  unfolding list_ex_iff set_upto Bex_def atLeastAtMost_iff max_def min_def by presburger

lemma getTasksForWeek_filter:
  assumes "dayOf zone (midnight zone ws + 6 * 24 * 60 * 60 * 1000) = ws + 6"
  shows "getTasksForWeek zone filtered ws
     = filter (\<lambda>t. max (startDate t) ws \<le> min (endDate t) (ws + 6)) filtered"
  using assms by (simp add: getTasksForWeek_def eachDayOfInterval_def week_intersects)

lemma utc_week: "dayOf utc (midnight utc ws + 6 * 24 * 60 * 60 * 1000) = ws + 6"
  by (simp add: dayOf_def midnight_def utc_def msPerDay_def)

lemma november_eq: "november d = 20027 + d"
  by (simp add: november_def days_from_civil_def)

lemma TaskStrip_week:
  assumes "max (startDate t) ws \<le> min (endDate t) (ws + 6)"
  shows "TaskStrip t ws [ws..ws + 6] lane = Some (weekSegment t ws lane)"
proof -
  let ?a = "max (startDate t) ws" and ?b = "min (endDate t) (ws + 6)"
  have a: "ws \<le> ?a" "?a \<le> ws + 6" and b: "ws \<le> ?b" "?b \<le> ws + 6"
    using assms by simp_all
  have last: "[ws..ws + 6] ! 6 = ws + 6"
    using nth_upto [of ws 6 "ws + 6"] by simp
  have ia: "findIndex (\<lambda>day. isSameDay day ?a) [ws..ws + 6] = ?a - ws"
    by (rule findIndex_week [OF a])
  have ib: "findIndex (\<lambda>day. isSameDay day ?b) [ws..ws + 6] = ?b - ws"
    by (rule findIndex_week [OF b])
  have "?a - ws \<noteq> - 1" and "?b - ws \<noteq> - 1"
    using a(1) b(1) by simp_all
  then show ?thesis
    unfolding TaskStrip_def weekSegment_def Let_def last ia ib
    by (simp add: isSameDay_def)
qed

text \<open>
  A week row of the seven days from \<open>ws\<close>, in a zone where the instant six times 24
  hours after the row's first midnight is still on the row's last day: the tasks rendered
  in it are the tasks of the filtered list whose interval meets the week, in the order of
  the list, and the strip of the task at position \<open>lane\<close> among them is the week segment
  of the specification, with its columns between 0 and 6 and the vertical offset
  \<open>25 + 31 * lane\<close>.
\<close>

lemma week_projection_same_day:
  assumes "week = eachDayOfInterval ws (ws + 6)"
    and "dayOf zone (midnight zone ws + 6 * 24 * 60 * 60 * 1000) = ws + 6"
  shows "getTasksForWeek zone filtered ws
       = filter (\<lambda>t. max (startDate t) ws \<le> min (endDate t) (ws + 6)) filtered
    \<and> length (weekStrips zone filtered week) = length (getTasksForWeek zone filtered ws)
    \<and> (\<forall>lane < length (getTasksForWeek zone filtered ws).
          weekStrips zone filtered week ! lane
            = Some (weekSegment (getTasksForWeek zone filtered ws ! lane) ws lane)
          \<and> 0 \<le> startDayIndex (weekSegment (getTasksForWeek zone filtered ws ! lane) ws lane)
          \<and> startDayIndex (weekSegment (getTasksForWeek zone filtered ws ! lane) ws lane)
              \<le> endDayIndex (weekSegment (getTasksForWeek zone filtered ws ! lane) ws lane)
          \<and> endDayIndex (weekSegment (getTasksForWeek zone filtered ws ! lane) ws lane) \<le> 6
          \<and> topOffset (weekSegment (getTasksForWeek zone filtered ws ! lane) ws lane)
              = 25 + 31 * int lane)"
proof -
  let ?ts = "getTasksForWeek zone filtered ws"
  note filter = getTasksForWeek_filter [OF assms(2)]
  have week: "week = [ws..ws + 6]" and first: "week ! 0 = ws"
    using nth_upto [of ws 0 "ws + 6"] by (simp_all add: assms(1) eachDayOfInterval_def)
  have meets: "max (startDate (?ts ! lane)) ws \<le> min (endDate (?ts ! lane)) (ws + 6)"
    if "lane < length ?ts" for lane
  proof -
    have "?ts ! lane \<in> set ?ts" using that by simp
    then show ?thesis unfolding filter by simp
  qed
  have strip: "weekStrips zone filtered week ! lane = Some (weekSegment (?ts ! lane) ws lane)"
    if "lane < length ?ts" for lane
    using that TaskStrip_week [OF meets [OF that], of lane]
    by (simp add: weekStrips_def first nth_enumerate_eq) (simp add: week)
  have cols: "0 \<le> startDayIndex (weekSegment (?ts ! lane) ws lane)
      \<and> startDayIndex (weekSegment (?ts ! lane) ws lane)
          \<le> endDayIndex (weekSegment (?ts ! lane) ws lane)
      \<and> endDayIndex (weekSegment (?ts ! lane) ws lane) \<le> 6
      \<and> topOffset (weekSegment (?ts ! lane) ws lane) = 25 + 31 * int lane"
    if "lane < length ?ts" for lane
    using meets [OF that] by (simp add: weekSegment_def Let_def)
  have "length (weekStrips zone filtered week) = length ?ts"
    by (simp add: weekStrips_def first)
  then show ?thesis
    using filter [of filtered] strip cols by blast
qed

text \<open>
  Claim C8 on the code: in New York the clocks go back on Sunday 3 November 2024. The
  week row of that Sunday runs to Saturday 9 November, and a task on that Saturday meets
  it; but \<^verbatim>\<open>getTasksForWeek\<close> ends its week 144 hours after the Sunday's midnight, at
  23:00 on Friday 8 November, so that its days stop at the Friday, the task is left out
  and the row renders no strip for it. In the zone of UTC the same task is kept.
\<close>

theorem week_row_loses_saturday:
  "getDay (november 3) = 0
   \<and> dayOf newYork (midnight newYork (november 3) + 6 * 24 * 60 * 60 * 1000) = november 8
   \<and> max (startDate (exampleTask ''a'' (november 9) (november 9))) (november 3)
       \<le> min (endDate (exampleTask ''a'' (november 9) (november 9))) (november 3 + 6)
   \<and> getTasksForWeek newYork [exampleTask ''a'' (november 9) (november 9)] (november 3) = []
   \<and> weekStrips newYork [exampleTask ''a'' (november 9) (november 9)]
        (eachDayOfInterval (november 3) (november 9)) = []
   \<and> getTasksForWeek utc [exampleTask ''a'' (november 9) (november 9)] (november 3)
       = [exampleTask ''a'' (november 9) (november 9)]"
proof -
  have friday: "dayOf newYork (midnight newYork (november 3) + 6 * 24 * 60 * 60 * 1000)
      = november 8"
    by (simp add: dayOf_def midnight_def newYork_def msPerDay_def november_eq)
  have first: "eachDayOfInterval (november 3) (november 9) ! 0 = november 3"
    by (simp add: eachDayOfInterval_def november_eq upto_rec1)
  have none: "getTasksForWeek newYork [exampleTask ''a'' (november 9) (november 9)] (november 3)
      = []"
    unfolding getTasksForWeek_def friday
    by (simp add: eachDayOfInterval_def list_ex_iff exampleTask_def november_eq)
  have kept: "getTasksForWeek utc [exampleTask ''a'' (november 9) (november 9)] (november 3)
      = [exampleTask ''a'' (november 9) (november 9)]"
    by (simp add: getTasksForWeek_filter [OF utc_week] exampleTask_def november_eq)
  have strips: "weekStrips newYork [exampleTask ''a'' (november 9) (november 9)]
        (eachDayOfInterval (november 3) (november 9)) = []"
    unfolding weekStrips_def first none by simp
  have sunday: "getDay (november 3) = 0"
    by (simp add: getDay_def november_eq)
  have meets: "max (startDate (exampleTask ''a'' (november 9) (november 9))) (november 3)
       \<le> min (endDate (exampleTask ''a'' (november 9) (november 9))) (november 3 + 6)"
    by (simp add: exampleTask_def november_eq)
  show ?thesis
    by (intro conjI sunday friday meets none strips kept)
qed


end
